theory Spec2Isabelle
  imports Complex_Main "HOL-Library.Log_Nat"
begin

section \<open>Moment Catcher: the moment-detection pipeline of app.py\<close>

text \<open>
  The theory embeds \<^verbatim>\<open>src/app.py\<close>: the class \<^verbatim>\<open>MomentCatcher\<close> and the upload
  handler. Python integers are modelled as \<^typ>\<open>int\<close>, numpy arrays as lists (a
  two-dimensional array as the list of its rows), and every exception as the left
  injection of a sum. The times the program computes with Python floats (window
  lengths, row counts, moment bounds, the accumulated trailer duration) are modelled
  with the rounding of double precision, see below. The feature values and scores that
  numpy computes are modelled in exact real arithmetic: of them the properties below
  use the shapes only.
\<close>

subsection \<open>Exceptions\<close>

datatype error =
    ValueError      \<comment> \<open>raised by \<^verbatim>\<open>range\<close>, \<^verbatim>\<open>np.zeros\<close>, \<^verbatim>\<open>np.dot\<close>, \<^verbatim>\<open>find_peaks\<close>\<close>
  | OpenError       \<comment> \<open>\<^verbatim>\<open>VideoFileClip(path)\<close> cannot open the file\<close>
  | RenderError     \<comment> \<open>\<^verbatim>\<open>write_videofile\<close> fails\<close>
  | OverflowError   \<comment> \<open>\<^verbatim>\<open>int(x)\<close> on an infinite float\<close>

subsection \<open>Python floats\<close>

text \<open>
  A Python float is an IEEE 754 double. Its finite values are real numbers, and every
  arithmetic operation returns the exact result rounded to the nearest double, a tie
  going to the even significand. \<open>fl\<close> is this rounding while the exponent is not too
  large: the significand has 53 bits, and the last bit has weight \<open>2\<^sup>e\<^sup>-\<^sup>5\<^sup>2\<close> for a
  number in \<open>[2\<^sup>e, 2\<^sup>e\<^sup>+\<^sup>1)\<close>, but never less than \<open>2\<^sup>-\<^sup>1\<^sup>0\<^sup>7\<^sup>4\<close>. \<open>exponent x\<close> is that
  \<open>e\<close>, read off the bit length of an integer.
\<close>

definition round_half_even :: "real \<Rightarrow> int" where
  "round_half_even x =
     (let n = \<lfloor>x\<rfloor>; r = x - of_int n
      in if r < 1 / 2 then n else if 1 / 2 < r then n + 1 else if even n then n else n + 1)"

definition exponent :: "real \<Rightarrow> int" where
  "exponent x = (if 1 \<le> \<bar>x\<bar> then bitlen \<lfloor>\<bar>x\<bar>\<rfloor> - 1 else - bitlen (\<lceil>1 / \<bar>x\<bar>\<rceil> - 1))"

definition ulp :: "real \<Rightarrow> real" where
  "ulp x = 2 powi (max (exponent x) (- 1022) - 52)"

definition fl :: "real \<Rightarrow> real" where
  "fl x = (if x = 0 then 0 else of_int (round_half_even (x / ulp x)) * ulp x)"

text \<open>
  A float is finite, infinite or not a number. A result that rounds to \<open>2\<^sup>1\<^sup>0\<^sup>2\<^sup>4\<close> or
  beyond is infinite. The sign of a zero is not represented; no operation that the
  program applies to its times depends on it.

  A finite float is given by its value. Where a real number that is not a double
  stands for a float, in a field of a record or in a moment, it stands for the double
  nearest to it, as a decimal literal does in Python: the arithmetic operations read
  their operands through \<open>fl\<close>, which leaves a double as it is.
\<close>

datatype pyfloat = Finite real | PosInf | NegInf | NaN

definition rounded :: "real \<Rightarrow> pyfloat" where
  "rounded x =
     (let y = fl x
      in if 2 ^ 1024 \<le> y then PosInf else if y \<le> - (2 ^ 1024) then NegInf else Finite y)"

fun fneg :: "pyfloat \<Rightarrow> pyfloat" where
  "fneg (Finite x) = Finite (- x)"
| "fneg PosInf = NegInf"
| "fneg NegInf = PosInf"
| "fneg NaN = NaN"

fun fadd :: "pyfloat \<Rightarrow> pyfloat \<Rightarrow> pyfloat" where
  "fadd (Finite x) (Finite y) = rounded (fl x + fl y)"
| "fadd NaN b = NaN"
| "fadd a NaN = NaN"
| "fadd PosInf NegInf = NaN"
| "fadd NegInf PosInf = NaN"
| "fadd PosInf b = PosInf"
| "fadd a PosInf = PosInf"
| "fadd NegInf b = NegInf"
| "fadd a NegInf = NegInf"

definition fsub :: "pyfloat \<Rightarrow> pyfloat \<Rightarrow> pyfloat" where
  "fsub a b = fadd a (fneg b)"

text \<open>The product of two finite floats.\<close>

definition fmul :: "real \<Rightarrow> real \<Rightarrow> pyfloat" where
  "fmul x y = rounded (fl x * fl y)"

text \<open>
  The quotient of two finite floats with numpy's treatment of a zero divisor, which
  yields an infinity or \<^verbatim>\<open>nan\<close> with a warning. The program divides a numpy integer by
  \<^verbatim>\<open>self.fps\<close> and a float by the literal \<^verbatim>\<open>2\<close>.
\<close>

definition fdiv :: "real \<Rightarrow> real \<Rightarrow> pyfloat" where
  "fdiv x y =
     (if fl y = 0 then (if fl x = 0 then NaN else if 0 < fl x then PosInf else NegInf)
      else rounded (fl x / fl y))"

text \<open>
  The comparisons \<^verbatim>\<open><\<close>, \<^verbatim>\<open><=\<close> and \<^verbatim>\<open>>=\<close>. They are exact, also between a float and an
  integer, and every comparison with \<^verbatim>\<open>nan\<close> is false.
\<close>

fun flt :: "pyfloat \<Rightarrow> pyfloat \<Rightarrow> bool" where
  "flt NaN b = False"
| "flt a NaN = False"
| "flt (Finite x) (Finite y) = (x < y)"
| "flt a NegInf = False"
| "flt NegInf b = True"
| "flt PosInf b = False"
| "flt a PosInf = True"

definition fle :: "pyfloat \<Rightarrow> pyfloat \<Rightarrow> bool" where
  "fle a b \<longleftrightarrow> flt a b \<or> (a = b \<and> a \<noteq> NaN)"

definition fge :: "pyfloat \<Rightarrow> pyfloat \<Rightarrow> bool" where
  "fge a b \<longleftrightarrow> fle b a"

text \<open>
  The built-ins \<^verbatim>\<open>max(a, b)\<close> and \<^verbatim>\<open>min(a, b)\<close> return their first argument unless the
  second one is greater, respectively smaller.
\<close>

definition py_max :: "pyfloat \<Rightarrow> pyfloat \<Rightarrow> pyfloat" where
  "py_max a b = (if flt a b then b else a)"

definition py_min :: "pyfloat \<Rightarrow> pyfloat \<Rightarrow> pyfloat" where
  "py_min a b = (if flt b a then b else a)"

subsection \<open>Python and numpy primitives\<close>

text \<open>
  \<^verbatim>\<open>int(x)\<close> on a float truncates towards zero; on an infinity it raises
  \<^verbatim>\<open>OverflowError\<close>, on \<^verbatim>\<open>nan\<close> it raises \<^verbatim>\<open>ValueError\<close>.
\<close>

definition py_int :: "real \<Rightarrow> int" where
  "py_int x = (if 0 \<le> x then \<lfloor>x\<rfloor> else \<lceil>x\<rceil>)"

definition int_of_float :: "pyfloat \<Rightarrow> error + int" where
  "int_of_float a =
     (case a of Finite x \<Rightarrow> Inr (py_int x) | NaN \<Rightarrow> Inl ValueError | _ \<Rightarrow> Inl OverflowError)"

text \<open>
  \<^verbatim>\<open>range(start, stop, step)\<close>: a zero step raises \<^verbatim>\<open>ValueError\<close>; a positive step
  counts up while below \<open>stop\<close>, a negative one counts down while above it.
\<close>

definition py_range :: "int \<Rightarrow> int \<Rightarrow> int \<Rightarrow> error + int list" where
  "py_range start stop step =
     (if step = 0 then Inl ValueError
      else if 0 < step then
        Inr (map (\<lambda>k. start + int k * step) [0..<nat ((stop - start + step - 1) div step)])
      else
        Inr (map (\<lambda>k. start + int k * step) [0..<nat ((start - stop - step - 1) div (- step))]))"

text \<open>
  \<^verbatim>\<open>xs[a:b]\<close>: a negative bound counts from the end, and both bounds are clipped to
  the list.
\<close>

definition py_bound :: "nat \<Rightarrow> int \<Rightarrow> nat" where
  "py_bound n i = (if i < 0 then nat (max 0 (int n + i)) else min n (nat i))"

definition py_slice :: "'a list \<Rightarrow> int \<Rightarrow> int \<Rightarrow> 'a list" where
  "py_slice xs a b = take (py_bound (length xs) b - py_bound (length xs) a) (drop (py_bound (length xs) a) xs)"

text \<open>\<^verbatim>\<open>xs[a:]\<close>.\<close>

definition py_slice_from :: "'a list \<Rightarrow> int \<Rightarrow> 'a list" where
  "py_slice_from xs a = drop (py_bound (length xs) a) xs"

text \<open>
  \<^verbatim>\<open>np.zeros((n, cols))\<close>: a negative dimension raises \<^verbatim>\<open>ValueError\<close>.
\<close>

definition np_zeros :: "int \<Rightarrow> nat \<Rightarrow> error + real list list" where
  "np_zeros n cols = (if n < 0 then Inl ValueError else Inr (replicate (nat n) (replicate cols 0)))"

text \<open>
  \<^verbatim>\<open>np.mean\<close> and \<^verbatim>\<open>np.var\<close> (the population variance). On an empty array numpy
  yields \<^verbatim>\<open>nan\<close> with a warning; here the quotient by zero is \<open>0\<close>.
\<close>

definition np_mean :: "real list \<Rightarrow> real" where
  "np_mean xs = sum_list xs / real (length xs)"

definition np_var :: "real list \<Rightarrow> real" where
  "np_var xs = np_mean (map (\<lambda>x. (x - np_mean xs)\<^sup>2) xs)"

text \<open>
  \<^verbatim>\<open>np.hstack([a, v])\<close> for two matrices with the same number of rows joins them row
  by row.
\<close>

definition np_hstack :: "real list list \<Rightarrow> real list list \<Rightarrow> real list list" where
  "np_hstack a v = map2 (@) a v"

text \<open>
  \<^verbatim>\<open>np.dot(m, w)\<close> of a matrix with a vector: every row must be as wide as the vector,
  otherwise numpy raises \<^verbatim>\<open>ValueError\<close> (shapes not aligned). The matrix is a list of
  rows, so the width of a matrix without rows is not represented; the program calls
  \<^verbatim>\<open>np.dot\<close> on matrices with at least one row only.
\<close>

definition np_dot :: "real list list \<Rightarrow> real list \<Rightarrow> error + real list" where
  "np_dot m w =
     (if list_all (\<lambda>row. length row = length w) m
      then Inr (map (\<lambda>row. sum_list (map2 (*) row w)) m)
      else Inl ValueError)"

text \<open>
  \<^verbatim>\<open>np.argsort(xs)\<close>: the indices of \<open>xs\<close> in ascending order of their values. The
  program calls it with the default sorting kind, which is not stable: numpy fixes no
  order among the indices of equal values, and the order differs between platforms.
  The result is therefore some arrangement of the indices that puts the values in
  ascending order, and nothing more is known of it.
\<close>

definition is_argsort :: "real list \<Rightarrow> nat list \<Rightarrow> bool" where
  "is_argsort xs p \<longleftrightarrow>
     distinct p \<and> set p = {0..<length xs} \<and> sorted (map (\<lambda>i. xs ! i) p)"

definition np_argsort :: "real list \<Rightarrow> nat list" where
  "np_argsort xs = (SOME p. is_argsort xs p)"

text \<open>
  \<^verbatim>\<open>np.percentile(xs, q)\<close> with the default linear interpolation: the value at the
  fractional position \<open>q / 100 * (n - 1)\<close> of the sorted data.
\<close>

definition np_percentile :: "real list \<Rightarrow> real \<Rightarrow> real" where
  "np_percentile xs q =
     (let s = sort xs;
          pos = q / 100 * (real (length xs) - 1);
          lo = nat \<lfloor>pos\<rfloor>;
          hi = min (lo + 1) (length xs - 1)
      in s ! lo + (pos - real lo) * (s ! hi - s ! lo))"

text \<open>
  \<^verbatim>\<open>StandardScaler().fit_transform(m)\<close>: every column is shifted by its mean and
  divided by its standard deviation; a column of deviation zero is divided by one.
\<close>

definition column :: "real list list \<Rightarrow> nat \<Rightarrow> real list" where
  "column m j = map (\<lambda>row. row ! j) m"

definition scale_of :: "real list \<Rightarrow> real" where
  "scale_of col = (let sd = sqrt (np_var col) in if sd = 0 then 1 else sd)"

definition fit_transform :: "real list list \<Rightarrow> real list list" where
  "fit_transform m =
     map (\<lambda>row. map (\<lambda>j. (row ! j - np_mean (column m j)) / scale_of (column m j)) [0..<length row]) m"

subsection \<open>The video source\<close>

text \<open>
  What \<^verbatim>\<open>audio.to_soundarray()\<close> returns: a one-dimensional array of samples, or a
  two-dimensional one with a row of channel values for each sample.
\<close>

datatype soundarray = Mono "real list" | Channels "real list list"

text \<open>
  A decoded frame, as \<^verbatim>\<open>cap.read()\<close> delivers it together with what OpenCV computes
  from it: the pixels \<^verbatim>\<open>frame.reshape(-1, 3)\<close>, the gray image of \<^verbatim>\<open>cv2.cvtColor\<close>
  and the edge image of \<^verbatim>\<open>cv2.Canny(gray, 50, 150)\<close> (each pixel 0 or 255).
\<close>

record frame =
  pixels :: "(real \<times> real \<times> real) list"
  gray :: "real list"
  edges :: "nat list"

text \<open>
  The contents of a video file: what \<^verbatim>\<open>VideoFileClip\<close> reports (\<^verbatim>\<open>fps\<close>,
  \<^verbatim>\<open>duration\<close>, \<^verbatim>\<open>audio\<close>, which is \<^verbatim>\<open>None\<close> without an audio track) and the frames
  that \<^verbatim>\<open>cv2.VideoCapture\<close> reads from the same path.
\<close>

record video_file =
  v_fps :: real
  v_duration :: real
  v_audio :: "soundarray option"
  v_frames :: "frame list"

subsection \<open>Moments and the trailer assembler (generate_trailer, lines 179-188)\<close>

text \<open>
  A moment is the tuple \<^verbatim>\<open>(start_time, end_time, score)\<close> appended at line 164. Its
  components are floats; the integer \<open>0\<close> that \<^verbatim>\<open>max(0, x)\<close> returns for a start time
  counts as the float zero, with which it agrees in every operation below.
\<close>

type_synonym moment = "pyfloat \<times> pyfloat \<times> pyfloat"

definition start_time :: "moment \<Rightarrow> pyfloat" where
  "start_time m = fst m"

definition end_time :: "moment \<Rightarrow> pyfloat" where
  "end_time m = fst (snd m)"

definition score :: "moment \<Rightarrow> pyfloat" where
  "score m = snd (snd m)"

text \<open>A sub-clip handle, \<^verbatim>\<open>self.clip.subclip(start_time, end_time)\<close>.\<close>

type_synonym subclip = "pyfloat \<times> pyfloat"

text \<open>
  The loop of lines 182-188, with its two accumulators \<^verbatim>\<open>clips\<close> and
  \<^verbatim>\<open>total_duration\<close>:
  \<^verbatim>\<open>
  for start_time, end_time, score in self.moments:
      if total_duration >= max_duration:
          break
      clip = self.clip.subclip(start_time, end_time)
      clips.append(clip)
      total_duration += (end_time - start_time)
  \<close>
  The difference and the sum are float operations, each of them rounded. The budget
  \<^verbatim>\<open>max_duration\<close> is an integer or a finite float.
\<close>

fun admit_loop :: "real \<Rightarrow> moment list \<Rightarrow> subclip list \<Rightarrow> pyfloat \<Rightarrow> subclip list \<times> pyfloat" where
  "admit_loop max_duration [] clips total_duration = (clips, total_duration)"
| "admit_loop max_duration (m # ms) clips total_duration =
     (if fge total_duration (Finite max_duration) then (clips, total_duration)
      else admit_loop max_duration ms
             (clips @ [(start_time m, end_time m)])
             (fadd total_duration (fsub (end_time m) (start_time m))))"

text \<open>Lines 179-188: the accumulators start at \<^verbatim>\<open>[]\<close> and \<^verbatim>\<open>0\<close>.\<close>

definition admit :: "real \<Rightarrow> moment list \<Rightarrow> subclip list \<times> pyfloat" where
  "admit max_duration ms = admit_loop max_duration ms [] (Finite 0)"

text \<open>
  The accumulated duration of a list of moments, used to state the stopping rule: the
  durations added one after the other in float arithmetic, from a given total and
  from zero.
\<close>

definition accumulate :: "pyfloat \<Rightarrow> moment list \<Rightarrow> pyfloat" where
  "accumulate t ms = foldl (\<lambda>t m. fadd t (fsub (end_time m) (start_time m))) t ms"

definition total_of :: "moment list \<Rightarrow> pyfloat" where
  "total_of ms = accumulate (Finite 0) ms"

definition clip_of :: "moment \<Rightarrow> subclip" where
  "clip_of m = (start_time m, end_time m)"

subsection \<open>MomentCatcher\<close>

text \<open>
  The instance state set up by \<^verbatim>\<open>__init__\<close> (lines 40-45). \<open>clip\<close> is the opened
  \<^verbatim>\<open>VideoFileClip\<close>; \<open>fps\<close> and \<open>duration\<close> are copied from it.
\<close>

record catcher =
  video_path :: string
  clip :: video_file
  fps :: real
  duration :: real
  moments :: "moment list"

subsection \<open>extract_audio_features (lines 47-82)\<close>

text \<open>Line 70: \<^verbatim>\<open>np.sum(frame ** 2)\<close>.\<close>

definition energy :: "real list \<Rightarrow> real" where
  "energy fr = (\<Sum>x\<leftarrow>fr. x\<^sup>2)"

text \<open>Line 73: \<^verbatim>\<open>np.sum(np.diff(np.sign(frame)) != 0) / len(frame)\<close>.\<close>

definition np_diff :: "real list \<Rightarrow> real list" where
  "np_diff xs = map2 (\<lambda>a b. b - a) xs (tl xs)"

definition zcr :: "real list \<Rightarrow> real" where
  "zcr fr = real (length (filter (\<lambda>d. d \<noteq> 0) (np_diff (map sgn fr)))) / real (length fr)"

text \<open>
  Lines 76-78: the discrete Fourier transform \<^verbatim>\<open>np.fft.fft\<close>, the sample frequencies
  \<^verbatim>\<open>np.fft.fftfreq\<close> and the centroid. For an all-zero window numpy yields \<^verbatim>\<open>nan\<close>;
  here the quotient by zero is \<open>0\<close>.
\<close>

definition np_fft :: "real list \<Rightarrow> complex list" where
  "np_fft xs =
     map (\<lambda>k. \<Sum>n\<leftarrow>[0..<length xs].
                 complex_of_real (xs ! n) * cis (- 2 * pi * real k * real n / real (length xs)))
         [0..<length xs]"

definition np_fftfreq :: "nat \<Rightarrow> real list" where
  "np_fftfreq n =
     map (\<lambda>k. (if k < (n + 1) div 2 then real k else real k - real n) / real n) [0..<n]"

definition spectral_centroid :: "real list \<Rightarrow> real" where
  "spectral_centroid fr =
     (let fft = np_fft fr; freqs = np_fftfreq (length fr)
      in sum_list (map2 (\<lambda>c f. cmod c * \<bar>f\<bar>) fft freqs) / sum_list (map cmod fft))"

text \<open>Lines 58-59: a two-dimensional sound array is averaged over its channels.\<close>

definition mono_mix :: "soundarray \<Rightarrow> real list" where
  "mono_mix a = (case a of Mono xs \<Rightarrow> xs | Channels rows \<Rightarrow> map np_mean rows)"

text \<open>
  Lines 62-63. The rate used is \<^verbatim>\<open>self.fps\<close>, the frame rate of the video. The literal
  \<^verbatim>\<open>0.1\<close> is the double nearest to one tenth. Neither the product nor the quotient can
  leave the range of the finite floats, so both are given by \<open>fl\<close>.
\<close>

definition frame_length :: "catcher \<Rightarrow> int" where
  "frame_length c = py_int (fl (fl (fps c) * fl (1 / 10)))"

definition hop_length :: "catcher \<Rightarrow> int" where
  "hop_length c = py_int (fl (real_of_int (frame_length c) / 2))"

text \<open>Lines 66-67: the start indices of the windows, and the window at an index.\<close>

definition window_starts :: "catcher \<Rightarrow> real list \<Rightarrow> error + int list" where
  "window_starts c audio_array =
     py_range 0 (int (length audio_array) - frame_length c) (hop_length c)"

definition window_at :: "catcher \<Rightarrow> real list \<Rightarrow> int \<Rightarrow> real list" where
  "window_at c audio_array i = py_slice audio_array i (i + frame_length c)"

definition extract_audio_features :: "catcher \<Rightarrow> error + real list list" where
  "extract_audio_features c =
     (case v_audio (clip c) of
        None \<Rightarrow>
          (case int_of_float (fmul (duration c) (fps c)) of
             Inl e \<Rightarrow> Inl e
           | Inr n \<Rightarrow> np_zeros n 1)
      | Some audio \<Rightarrow>
          (let audio_array = mono_mix audio in
           case window_starts c audio_array of
             Inl e \<Rightarrow> Inl e
           | Inr starts \<Rightarrow>
               Inr (map (\<lambda>i. let fr = window_at c audio_array i
                              in [energy fr, zcr fr, spectral_centroid fr]) starts)))"

subsection \<open>extract_visual_features (lines 84-122)\<close>

text \<open>Line 102: \<^verbatim>\<open>cv2.absdiff\<close>, the element-wise absolute difference.\<close>

definition absdiff :: "real list \<Rightarrow> real list \<Rightarrow> real list" where
  "absdiff a b = map2 (\<lambda>x y. \<bar>x - y\<bar>) a b"

text \<open>Line 109: the fraction of edge pixels.\<close>

definition edge_density :: "frame \<Rightarrow> real" where
  "edge_density f = real (length (filter (\<lambda>e. e > 0) (edges f))) / real (length (edges f))"

text \<open>Line 115: the variance of each colour channel, averaged over the three channels.\<close>

definition color_var :: "frame \<Rightarrow> real" where
  "color_var f =
     np_mean [np_var (map fst (pixels f)),
              np_var (map (fst \<circ> snd) (pixels f)),
              np_var (map (snd \<circ> snd) (pixels f))]"

text \<open>
  The loop of lines 92-119 over the frames that \<^verbatim>\<open>cap.read()\<close> delivers, with its
  variables \<^verbatim>\<open>frame_count\<close>, \<^verbatim>\<open>prev_gray\<close> and \<^verbatim>\<open>features\<close>. \<^verbatim>\<open>prev_gray\<close> is read only
  when \<^verbatim>\<open>frame_count > 0\<close>.
\<close>

fun visual_loop :: "frame list \<Rightarrow> nat \<Rightarrow> real list \<Rightarrow> real list list \<Rightarrow> real list list" where
  "visual_loop [] frame_count prev_gray features = features"
| "visual_loop (f # fs) frame_count prev_gray features =
     (let motion_score = (if frame_count > 0 then np_mean (absdiff (gray f) prev_gray) else 0);
          brightness_var = np_var (gray f)
      in visual_loop fs (frame_count + 1) (gray f)
           (features @ [[motion_score, edge_density f, brightness_var, color_var f]]))"

definition extract_visual_features :: "catcher \<Rightarrow> real list list" where
  "extract_visual_features c = visual_loop (v_frames (clip c)) 0 [] []"

subsection \<open>scipy.signal.find_peaks\<close>

text \<open>
  \<^verbatim>\<open>find_peaks(x, height=h, distance=d)\<close> as the program calls it at lines 149-151.
  The library first collects every local maximum, taking the middle sample of a flat
  top, then keeps the maxima of height at least \<open>h\<close>, then drops maxima closer than
  \<open>d\<close> samples to a higher one. The first and the last sample are never maxima.

  The scan for the end of a flat top:
  \<^verbatim>\<open>while i_ahead < i_max and x[i_ahead] == x[i]: i_ahead += 1\<close>
\<close>

function plateau_end :: "real list \<Rightarrow> nat \<Rightarrow> nat \<Rightarrow> nat \<Rightarrow> nat" where
  "plateau_end x i_max i i_ahead =
     (if i_ahead < i_max \<and> x ! i_ahead = x ! i
      then plateau_end x i_max i (i_ahead + 1)
      else i_ahead)"
  by pat_completeness auto
termination
  by (relation "measure (\<lambda>(x, i_max, i, i_ahead). i_max - i_ahead)") auto

declare plateau_end.simps [simp del]

lemma plateau_end_ge: "i_ahead \<le> plateau_end x i_max i i_ahead"
proof (induction x i_max i i_ahead rule: plateau_end.induct)
  case (1 x i_max i i_ahead)
  show ?case
  proof (cases "i_ahead < i_max \<and> x ! i_ahead = x ! i")
    case True
    then have "i_ahead + 1 \<le> plateau_end x i_max i (i_ahead + 1)" using 1 by blast
    then show ?thesis using True by (subst plateau_end.simps) simp
  next
    case False
    then show ?thesis by (subst plateau_end.simps) auto
  qed
qed

text \<open>
  The scan for local maxima:
  \<^verbatim>\<open>
  i = 1; i_max = len(x) - 1
  while i < i_max:
      if x[i - 1] < x[i]:
          i_ahead = i + 1
          while i_ahead < i_max and x[i_ahead] == x[i]: i_ahead += 1
          if x[i_ahead] < x[i]:
              midpoints.append((i + i_ahead - 1) // 2)
              i = i_ahead
      i += 1
  \<close>
\<close>

function local_maxima_loop :: "real list \<Rightarrow> nat \<Rightarrow> nat \<Rightarrow> nat list \<Rightarrow> nat list" where
  "local_maxima_loop x i_max i midpoints =
     (if i < i_max then
        (if x ! (i - 1) < x ! i \<and> x ! (plateau_end x i_max i (i + 1)) < x ! i
         then local_maxima_loop x i_max (plateau_end x i_max i (i + 1) + 1)
                (midpoints @ [(i + (plateau_end x i_max i (i + 1) - 1)) div 2])
         else local_maxima_loop x i_max (i + 1) midpoints)
      else midpoints)"
  by pat_completeness auto
termination
proof (relation "measure (\<lambda>(x, i_max, i, midpoints). i_max - i)")
  show "wf (measure (\<lambda>(x, i_max, i, midpoints). i_max - i))" by simp
next
  fix x :: "real list" and i_max i :: nat and midpoints :: "nat list"
  assume "i < i_max"
  moreover have "i + 1 \<le> plateau_end x i_max i (i + 1)" by (rule plateau_end_ge)
  ultimately show "((x, i_max, plateau_end x i_max i (i + 1) + 1, midpoints @ [(i + (plateau_end x i_max i (i + 1) - 1)) div 2]),
                    (x, i_max, i, midpoints)) \<in> measure (\<lambda>(x, i_max, i, midpoints). i_max - i)"
    by simp
next
  fix x :: "real list" and i_max i :: nat and midpoints :: "nat list"
  assume "i < i_max"
  then show "((x, i_max, i + 1, midpoints), (x, i_max, i, midpoints))
               \<in> measure (\<lambda>(x, i_max, i, midpoints). i_max - i)"
    by simp
qed

declare local_maxima_loop.simps [simp del]

definition local_maxima_1d :: "real list \<Rightarrow> nat list" where
  "local_maxima_1d x = local_maxima_loop x (length x - 1) 1 []"

text \<open>
  The distance filter. The maxima are visited from the highest to the lowest; a visited
  maximum that is still kept removes every neighbour closer than the distance:
  \<^verbatim>\<open>
  for i in range(peaks_size - 1, -1, -1):
      j = priority_to_position[i]
      if keep[j] == 0: continue
      k = j - 1
      while 0 <= k and peaks[j] - peaks[k] < distance: keep[k] = 0; k -= 1
      k = j + 1
      while k < peaks_size and peaks[k] - peaks[j] < distance: keep[k] = 0; k += 1
  \<close>
  In \<open>sweep_left\<close> the argument \<open>Suc k\<close> stands for the loop variable \<open>k\<close>, so that
  \<open>0\<close> stands for \<open>k = -1\<close>.
\<close>

fun sweep_left :: "nat list \<Rightarrow> int \<Rightarrow> nat \<Rightarrow> nat \<Rightarrow> bool list \<Rightarrow> bool list" where
  "sweep_left peaks distance j 0 keep = keep"
| "sweep_left peaks distance j (Suc k) keep =
     (if int (peaks ! j) - int (peaks ! k) < distance
      then sweep_left peaks distance j k (keep[k := False])
      else keep)"

function sweep_right :: "nat list \<Rightarrow> int \<Rightarrow> nat \<Rightarrow> nat \<Rightarrow> bool list \<Rightarrow> bool list" where
  "sweep_right peaks distance j k keep =
     (if k < length peaks \<and> int (peaks ! k) - int (peaks ! j) < distance
      then sweep_right peaks distance j (k + 1) (keep[k := False])
      else keep)"
  by pat_completeness auto
termination
  by (relation "measure (\<lambda>(peaks, distance, j, k, keep). length peaks - k)") auto

declare sweep_right.simps [simp del]

fun distance_loop :: "nat list \<Rightarrow> int \<Rightarrow> nat list \<Rightarrow> bool list \<Rightarrow> bool list" where
  "distance_loop peaks distance [] keep = keep"
| "distance_loop peaks distance (j # js) keep =
     (if \<not> keep ! j then distance_loop peaks distance js keep
      else distance_loop peaks distance js
             (sweep_right peaks distance j (j + 1) (sweep_left peaks distance j j keep)))"

definition select_by_peak_distance :: "nat list \<Rightarrow> real list \<Rightarrow> int \<Rightarrow> bool list" where
  "select_by_peak_distance peaks priority distance =
     distance_loop peaks distance (rev (np_argsort priority)) (replicate (length peaks) True)"

definition find_peaks :: "real list \<Rightarrow> real \<Rightarrow> int \<Rightarrow> error + nat list" where
  "find_peaks x height distance =
     (if distance < 1 then Inl ValueError
      else
        let peaks = filter (\<lambda>p. height \<le> x ! p) (local_maxima_1d x);
            keep = select_by_peak_distance peaks (map (\<lambda>p. x ! p) peaks) distance
        in Inr (map fst (filter snd (zip peaks keep))))"

subsection \<open>detect_moments (lines 124-169)\<close>

text \<open>Line 145: the weight vector.\<close>

definition weights :: "real list" where
  "weights = [3 / 10, 2 / 10, 1 / 10, 2 / 10, 1 / 10, 1 / 10]"

text \<open>
  Lines 136-146: both feature matrices are cut to the shorter length, joined row by
  row, standardised, and multiplied with the weight vector.
\<close>

definition excitement_scores :: "real list list \<Rightarrow> real list list \<Rightarrow> error + real list" where
  "excitement_scores audio_features visual_features =
     (let min_len = min (length audio_features) (length visual_features);
          combined_features = np_hstack (take min_len audio_features) (take min_len visual_features);
          normalized_features = fit_transform combined_features
      in np_dot normalized_features weights)"

text \<open>Lines 149-151: the peaks of the score sequence.\<close>

definition peak_distance :: "catcher \<Rightarrow> error + int" where
  "peak_distance c = int_of_float (fmul (fps c) 2)"

definition detect_peaks :: "catcher \<Rightarrow> real list \<Rightarrow> error + nat list" where
  "detect_peaks c excitement_scores' =
     (case peak_distance c of
        Inl e \<Rightarrow> Inl e
      | Inr distance \<Rightarrow> find_peaks excitement_scores' (np_percentile excitement_scores' 70) distance)"

text \<open>
  Lines 155-157:
  \<^verbatim>\<open>
  peak_scores = excitement_scores[peaks]
  top_indices = np.argsort(peak_scores)[-num_moments:]
  top_peaks = peaks[top_indices]
  \<close>
\<close>

definition top_peaks :: "int \<Rightarrow> real list \<Rightarrow> nat list \<Rightarrow> nat list" where
  "top_peaks num_moments excitement_scores' peaks =
     (let peak_scores = map (\<lambda>p. excitement_scores' ! p) peaks;
          top_indices = py_slice_from (np_argsort peak_scores) (- num_moments)
      in map (\<lambda>i. peaks ! i) top_indices)"

text \<open>
  Lines 160-164: each chosen peak becomes the interval of length \<^verbatim>\<open>moment_duration\<close>
  around its time, cut to \<open>[0, duration]\<close>:
  \<^verbatim>\<open>
  start_time = max(0, peak / self.fps - moment_duration / 2)
  end_time = min(self.duration, peak / self.fps + moment_duration / 2)
  \<close>
  Each quotient, the difference and the sum are rounded.
\<close>

definition moment_of_peak :: "catcher \<Rightarrow> real \<Rightarrow> real list \<Rightarrow> nat \<Rightarrow> moment" where
  "moment_of_peak c moment_duration excitement_scores' peak =
     (py_max (Finite 0) (fsub (fdiv (real peak) (fps c)) (fdiv moment_duration 2)),
      py_min (Finite (fl (duration c))) (fadd (fdiv (real peak) (fps c)) (fdiv moment_duration 2)),
      Finite (excitement_scores' ! peak))"

text \<open>
  Line 167: \<^verbatim>\<open>self.moments.sort(key=lambda x: x[0])\<close>. Python's sort is stable, so the
  result is the one of inserting the moments, from the last to the first, each before
  the first moment that does not start earlier. A start time is never \<^verbatim>\<open>nan\<close>, since
  \<^verbatim>\<open>max(0, x)\<close> is \<open>0\<close> for \<^verbatim>\<open>x = nan\<close>.
\<close>

fun insert_by_start :: "moment \<Rightarrow> moment list \<Rightarrow> moment list" where
  "insert_by_start m [] = [m]"
| "insert_by_start m (x # xs) =
     (if fle (start_time m) (start_time x) then m # x # xs else x # insert_by_start m xs)"

definition sort_by_start :: "moment list \<Rightarrow> moment list" where
  "sort_by_start ms = foldr insert_by_start ms []"

definition moments_of_peaks :: "catcher \<Rightarrow> real \<Rightarrow> real list \<Rightarrow> nat list \<Rightarrow> moment list" where
  "moments_of_peaks c moment_duration excitement_scores' peaks =
     sort_by_start (map (moment_of_peak c moment_duration excitement_scores') peaks)"

text \<open>
  Lines 153-169, from the score sequence on: what the method returns and the instance
  it leaves. Without a peak \<^verbatim>\<open>self.moments\<close> keeps its previous value.
\<close>

definition select_moments :: "int \<Rightarrow> real \<Rightarrow> catcher \<Rightarrow> real list \<Rightarrow> error + (moment list \<times> catcher)" where
  "select_moments num_moments moment_duration c excitement_scores' =
     (case detect_peaks c excitement_scores' of
        Inl e \<Rightarrow> Inl e
      | Inr peaks \<Rightarrow>
          if length peaks > 0 then
            (let ms = moments_of_peaks c moment_duration excitement_scores'
                        (top_peaks num_moments excitement_scores' peaks)
             in Inr (ms, c\<lparr>moments := ms\<rparr>))
          else Inr (moments c, c))"

definition detect_moments :: "int \<Rightarrow> real \<Rightarrow> catcher \<Rightarrow> error + (moment list \<times> catcher)" where
  "detect_moments num_moments moment_duration c =
     (case extract_audio_features c of
        Inl e \<Rightarrow> Inl e
      | Inr audio_features \<Rightarrow>
          (let visual_features = extract_visual_features c in
           if length audio_features > 0 \<and> length visual_features > 0 then
             (case excitement_scores audio_features visual_features of
                Inl e \<Rightarrow> Inl e
              | Inr scores \<Rightarrow> select_moments num_moments moment_duration c scores)
           else Inr (moments c, c)))"


subsection \<open>The world outside the instance\<close>

text \<open>
  The files on disk (a stored upload either decodes to a video or does not), the
  \<^verbatim>\<open>VideoFileClip\<close> handles that are open, the trailers that \<^verbatim>\<open>write_videofile\<close> has
  rendered, and whether the encoder succeeds.
\<close>

record world =
  files :: "string \<rightharpoonup> video_file option"
  open_clips :: "string list"
  outputs :: "string list"
  encoder_ok :: bool

text \<open>Lines 40-45: \<^verbatim>\<open>VideoFileClip(video_path)\<close> raises when the file does not decode.\<close>

definition MomentCatcher :: "string \<Rightarrow> world \<Rightarrow> (error \<times> world) + (catcher \<times> world)" where
  "MomentCatcher path w =
     (case files w path of
        Some (Some v) \<Rightarrow>
          Inr (\<lparr>video_path = path, clip = v, fps = v_fps v, duration = v_duration v, moments = []\<rparr>,
               w\<lparr>open_clips := path # open_clips w\<rparr>)
      | _ \<Rightarrow> Inl (OpenError, w))"

text \<open>Lines 203-206: \<^verbatim>\<open>self.clip.close()\<close>.\<close>

definition close :: "catcher \<Rightarrow> world \<Rightarrow> world" where
  "close c w = w\<lparr>open_clips := remove1 (video_path c) (open_clips w)\<rparr>"

subsection \<open>generate_trailer (lines 171-201)\<close>

text \<open>
  Lines 190-201, after the loop: with at least one clip the trailer is rendered to
  \<^verbatim>\<open>output_path\<close> and the method returns \<^verbatim>\<open>True\<close>; with none it returns \<^verbatim>\<open>False\<close>.
\<close>

definition render :: "string \<Rightarrow> subclip list \<Rightarrow> catcher \<Rightarrow> world \<Rightarrow> (error \<times> world) + (bool \<times> catcher \<times> world)" where
  "render output_path clips c w =
     (if clips \<noteq> [] then
        (if encoder_ok w then Inr (True, c, w\<lparr>outputs := output_path # outputs w\<rparr>)
         else Inl (RenderError, w))
      else Inr (False, c, w))"

text \<open>Lines 179-201: the loop and the rendering, on the moments the instance holds.\<close>

definition assemble :: "string \<Rightarrow> real \<Rightarrow> catcher \<Rightarrow> world \<Rightarrow> (error \<times> world) + (bool \<times> catcher \<times> world)" where
  "assemble output_path max_duration c w = render output_path (fst (admit max_duration (moments c))) c w"

definition generate_trailer :: "string \<Rightarrow> real \<Rightarrow> catcher \<Rightarrow> world \<Rightarrow> (error \<times> world) + (bool \<times> catcher \<times> world)" where
  "generate_trailer output_path max_duration c w =
     (if moments c = [] then
        (case detect_moments 10 3 c of
           Inl e \<Rightarrow> Inl (e, w)
         | Inr (ms, c') \<Rightarrow> assemble output_path max_duration c' w)
      else assemble output_path max_duration c w)"

subsection \<open>upload_video (lines 213-257)\<close>

record request =
  has_video :: bool
  filename :: string
  body :: "video_file option"

datatype response =
    Trailer nat string "moment list"   \<comment> \<open>the success document: count, output file, moments\<close>
  | Failed nat string                  \<comment> \<open>a status code and a fixed error message\<close>
  | Processing_failed error            \<comment> \<open>status 500, \<^verbatim>\<open>Processing failed: ...\<close>\<close>

text \<open>The \<^verbatim>\<open>try\<close> block with its \<^verbatim>\<open>except\<close> clause, lines 228-251.\<close>

definition process :: "string \<Rightarrow> string \<Rightarrow> world \<Rightarrow> response \<times> world" where
  "process fname filepath w =
     (case MomentCatcher filepath w of
        Inl (e, w1) \<Rightarrow> (Processing_failed e, w1)
      | Inr (catcher, w1) \<Rightarrow>
          (case detect_moments 10 3 catcher of
             Inl e \<Rightarrow> (Processing_failed e, w1)
           | Inr (ms, catcher1) \<Rightarrow>
               (let output_filename = ''trailer_'' @ fname;
                    output_path = ''outputs/'' @ output_filename
                in case generate_trailer output_path 30 catcher1 w1 of
                     Inl (e, w2) \<Rightarrow> (Processing_failed e, w2)
                   | Inr (success, catcher2, w2) \<Rightarrow>
                       (let w3 = close catcher2 w2
                        in if success then (Trailer (length ms) output_filename ms, w3)
                           else (Failed 500 ''Failed to generate trailer'', w3)))))"

text \<open>
  The handler. \<^verbatim>\<open>secure_filename\<close> is the library's sanitiser. The file is saved before
  the \<^verbatim>\<open>try\<close> block and removed in its \<^verbatim>\<open>finally\<close> clause. A file object with a
  non-empty name is truthy, so the last line of the source is never reached.
\<close>

definition upload_video :: "(string \<Rightarrow> string) \<Rightarrow> request \<Rightarrow> world \<Rightarrow> response \<times> world" where
  "upload_video secure_filename req w =
     (if \<not> has_video req then (Failed 400 ''No video file provided'', w)
      else if filename req = [] then (Failed 400 ''No file selected'', w)
      else
        (let fname = secure_filename (filename req);
             filepath = ''uploads/'' @ fname;
             w0 = w\<lparr>files := (files w)(filepath \<mapsto> body req)\<rparr>;
             (resp, w1) = process fname filepath w0
         in (resp, w1\<lparr>files := (files w1)(filepath := None)\<rparr>)))"

subsection \<open>The states of an instance\<close>

text \<open>
  The states that an instance takes in a program: the one the constructor leaves, and
  the ones that a returning call of \<^verbatim>\<open>detect_moments\<close> or \<^verbatim>\<open>generate_trailer\<close> leaves.
  A call that raises leaves the instance as it was.
\<close>

inductive reachable :: "catcher \<Rightarrow> bool" where
  constructed: "MomentCatcher path w = Inr (c, w') \<Longrightarrow> reachable c"
| detected: "reachable c \<Longrightarrow> detect_moments num_moments moment_duration c = Inr (ms, c') \<Longrightarrow> reachable c'"
| generated: "reachable c \<Longrightarrow> generate_trailer output_path max_duration c w = Inr (success, c', w')
                \<Longrightarrow> reachable c'"

subsection \<open>Predicates used to state the properties\<close>

text \<open>
  A sample is a local maximum of a sequence when it is neither the first nor the last
  one and neither neighbour is higher.
\<close>

definition is_peak :: "real list \<Rightarrow> nat \<Rightarrow> bool" where
  "is_peak x m \<longleftrightarrow> 0 < m \<and> m + 1 < length x \<and> x ! (m - 1) \<le> x ! m \<and> x ! (m + 1) \<le> x ! m"

text \<open>
  Position \<open>q\<close> of the peak list is near position \<open>j\<close> when the two peaks are closer
  than the distance; a set of positions is settled when no kept position in it has a
  kept position near it.
\<close>

definition near :: "nat list \<Rightarrow> int \<Rightarrow> nat \<Rightarrow> nat \<Rightarrow> bool" where
  "near peaks d j q \<longleftrightarrow> q \<noteq> j \<and> \<bar>int (peaks ! q) - int (peaks ! j)\<bar> < d"

definition settled :: "nat list \<Rightarrow> int \<Rightarrow> nat set \<Rightarrow> bool list \<Rightarrow> bool" where
  "settled peaks d D keep \<longleftrightarrow>
     (\<forall>j \<in> D. keep ! j \<longrightarrow> (\<forall>q < length peaks. near peaks d j q \<longrightarrow> \<not> keep ! q))"

subsection \<open>Example inputs\<close>

text \<open>
  A one-second video at 30 frames per second with a mono audio track of ten samples and
  one decoded frame, and the instance that \<^verbatim>\<open>MomentCatcher\<close> builds for it.
\<close>

definition ex_video :: video_file where
  "ex_video = \<lparr>v_fps = 30, v_duration = 1,
     v_audio = Some (Mono [0, 1, 0, -1, 0, 1, 0, -1, 0, 1]),
     v_frames = [\<lparr>pixels = [(0, 0, 0)], gray = [0], edges = [0]\<rparr>]\<rparr>"

definition ex_catcher :: catcher where
  "ex_catcher = \<lparr>video_path = ''uploads/a.mp4'', clip = ex_video, fps = 30, duration = 1, moments = []\<rparr>"

text \<open>An instance for a seven-second video at one frame per second.\<close>

definition cx :: catcher where
  "cx = \<lparr>video_path = ''clip.mp4'',
          clip = \<lparr>v_fps = 1, v_duration = 7, v_audio = None, v_frames = []\<rparr>,
          fps = 1, duration = 7, moments = []\<rparr>"

text \<open>
  An instance for a video of 0.29 seconds at 100 frames per second without an audio
  track. The duration is the double nearest to 0.29.
\<close>

definition cy :: catcher where
  "cy = \<lparr>video_path = ''short.mp4'',
          clip = \<lparr>v_fps = 100, v_duration = fl (29 / 100), v_audio = None, v_frames = []\<rparr>,
          fps = 100, duration = fl (29 / 100), moments = []\<rparr>"

text \<open>
  A world with no files, no open handle and a working encoder, and an upload request
  that carries the example video under the name \<^verbatim>\<open>a.mp4\<close>.
\<close>

definition w0 :: world where
  "w0 = \<lparr>files = Map.empty, open_clips = [], outputs = [], encoder_ok = True\<rparr>"

definition req0 :: request where
  "req0 = \<lparr>has_video = True, filename = ''a.mp4'', body = Some ex_video\<rparr>"

section \<open>Properties\<close>

subsection \<open>Float arithmetic on examples\<close>

lemmas float_eval =
  fl_def ulp_def exponent_def round_half_even_def compute_bitlen rounded_def
  fsub_def fmul_def fdiv_def fle_def fge_def

lemma fl_tenth: "fl (1 / 10) = 3602879701896397 / 2 ^ 55"
  by (simp add: float_eval)

text \<open>
  Ten times \<^verbatim>\<open>0.1\<close> added up is \<^verbatim>\<open>0.9999999999999999\<close>, and \<^verbatim>\<open>0.29 * 100\<close> is
  \<^verbatim>\<open>28.999999999999996\<close>, as in Python.
\<close>

lemma ten_tenths:
  "foldl fadd (Finite 0) (replicate 10 (Finite (fl (1 / 10)))) = Finite (1 - 1 / 2 ^ 53)"
  by (simp add: fl_tenth numeral_eq_Suc) (simp add: float_eval)

lemma fmul_29: "fmul (29 / 100) 100 = Finite (29 - 1 / 2 ^ 48)"
  by (simp add: float_eval)

lemma fmul_29_double: "fmul (fl (29 / 100)) 100 = Finite (29 - 1 / 2 ^ 48)"
  by (simp add: float_eval)

subsection \<open>The assembler\<close>

lemma accumulate_Nil [simp]: "accumulate t [] = t"
  by (simp add: accumulate_def)

lemma accumulate_Cons [simp]:
  "accumulate t (m # ms) = accumulate (fadd t (fsub (end_time m) (start_time m))) ms"
  by (simp add: accumulate_def)

text \<open>
  The loop, started on a total \<open>t\<close>, admits a prefix of the moments before it: every
  admitted moment was met with an accumulated total below the budget, and the loop stops
  either at the end of the list or with the budget reached.
\<close>

lemma admit_loop_prefix:
  "\<exists>k \<le> length ms.
     admit_loop mx ms cs t = (cs @ map clip_of (take k ms), accumulate t (take k ms))
     \<and> (\<forall>j < k. \<not> fge (accumulate t (take j ms)) (Finite mx))
     \<and> (k = length ms \<or> fge (accumulate t (take k ms)) (Finite mx))"
proof (induction ms arbitrary: cs t)
  case Nil
  then show ?case by simp
next
  case (Cons m ms)
  show ?case
  proof (cases "fge t (Finite mx)")
    case True
    then have "admit_loop mx (m # ms) cs t = (cs @ map clip_of (take 0 (m # ms)), accumulate t (take 0 (m # ms)))
        \<and> (\<forall>j < (0::nat). \<not> fge (accumulate t (take j (m # ms))) (Finite mx))
        \<and> ((0::nat) = length (m # ms) \<or> fge (accumulate t (take 0 (m # ms))) (Finite mx))"
      by simp
    then show ?thesis by blast
  next
    case False
    let ?cs = "cs @ [(start_time m, end_time m)]"
    let ?t = "fadd t (fsub (end_time m) (start_time m))"
    from Cons.IH [of ?cs ?t] obtain k where k: "k \<le> length ms"
      "admit_loop mx ms ?cs ?t = (?cs @ map clip_of (take k ms), accumulate ?t (take k ms))"
      "\<forall>j < k. \<not> fge (accumulate ?t (take j ms)) (Finite mx)"
      "k = length ms \<or> fge (accumulate ?t (take k ms)) (Finite mx)"
      by blast
    have a: "admit_loop mx (m # ms) cs t
        = (cs @ map clip_of (take (Suc k) (m # ms)), accumulate t (take (Suc k) (m # ms)))"
      using False k(2) by (simp add: clip_of_def)
    have b: "\<forall>j < Suc k. \<not> fge (accumulate t (take j (m # ms))) (Finite mx)"
    proof (intro allI impI)
      fix j assume j: "j < Suc k"
      show "\<not> fge (accumulate t (take j (m # ms))) (Finite mx)"
      proof (cases j)
        case 0
        then show ?thesis using False by simp
      next
        case (Suc i)
        then have "i < k" using j by simp
        then have "\<not> fge (accumulate ?t (take i ms)) (Finite mx)" using k(3) by blast
        then show ?thesis using Suc by simp
      qed
    qed
    have c: "Suc k = length (m # ms) \<or> fge (accumulate t (take (Suc k) (m # ms))) (Finite mx)"
      using k(4) by auto
    have "Suc k \<le> length (m # ms)" using k(1) by simp
    with a b c show ?thesis by blast
  qed
qed

text \<open>
  Eleven moments of \<^verbatim>\<open>0.1\<close> seconds and a budget of one second: the total after ten of
  them is \<^verbatim>\<open>0.9999999999999999\<close>, so the loop admits the eleventh as well.
\<close>

lemma admit_eleven_tenths:
  "fst (admit 1 (replicate 11 (Finite 0, Finite (fl (1 / 10)), Finite 1)))
     = replicate 11 (Finite 0, Finite (fl (1 / 10)))"
  by (simp add: admit_def start_time_def end_time_def fl_tenth numeral_eq_Suc) (simp add: float_eval)

text \<open>
  C4. The assembler walks the moment list in order and admits exactly a prefix of it:
  each admitted moment was considered while the accumulated duration was still below
  the budget, and the walk stops at the end of the list or as soon as the accumulated
  duration has reached the budget. Nothing is trimmed: the clips are the moments'
  own intervals and the total is their full accumulated duration, added up in float
  arithmetic as the loop does. For three ten-second moments and a budget of 15 the
  result is the first two moments, 20 seconds in all.
\<close>

theorem C4_assembler_stopping_rule:
  "(\<exists>k \<le> length ms.
      admit max_duration ms = (map clip_of (take k ms), total_of (take k ms))
      \<and> (\<forall>j < k. \<not> fge (total_of (take j ms)) (Finite max_duration))
      \<and> (k = length ms \<or> fge (total_of (take k ms)) (Finite max_duration)))
   \<and> admit 15 [(Finite 0, Finite 10, Finite 1), (Finite 20, Finite 30, Finite 2), (Finite 40, Finite 50, Finite 3)]
       = ([(Finite 0, Finite 10), (Finite 20, Finite 30)], Finite 20)"
proof
  show "\<exists>k \<le> length ms.
      admit max_duration ms = (map clip_of (take k ms), total_of (take k ms))
      \<and> (\<forall>j < k. \<not> fge (total_of (take j ms)) (Finite max_duration))
      \<and> (k = length ms \<or> fge (total_of (take k ms)) (Finite max_duration))"
    using admit_loop_prefix [of ms max_duration "[]" "Finite 0"] by (simp add: admit_def total_of_def)
next
  show "admit 15 [(Finite 0, Finite 10, Finite 1), (Finite 20, Finite 30, Finite 2), (Finite 40, Finite 50, Finite 3)]
       = ([(Finite 0, Finite 10), (Finite 20, Finite 30)], Finite 20)"
    by (simp add: admit_def start_time_def end_time_def float_eval)
qed

theorem C4_assembler_stopping_rule_witness:
  "\<exists>k \<le> length ([(Finite 0, Finite 10, Finite 1), (Finite 20, Finite 30, Finite 2), (Finite 40, Finite 50, Finite 3)] :: moment list).
      admit 15 [(Finite 0, Finite 10, Finite 1), (Finite 20, Finite 30, Finite 2), (Finite 40, Finite 50, Finite 3)]
        = (map clip_of (take k [(Finite 0, Finite 10, Finite 1), (Finite 20, Finite 30, Finite 2), (Finite 40, Finite 50, Finite 3)]),
           total_of (take k [(Finite 0, Finite 10, Finite 1), (Finite 20, Finite 30, Finite 2), (Finite 40, Finite 50, Finite 3)]))
      \<and> (\<forall>j < k. \<not> fge (total_of (take j [(Finite 0, Finite 10, Finite 1), (Finite 20, Finite 30, Finite 2), (Finite 40, Finite 50, Finite 3)])) (Finite 15))
      \<and> (k = length ([(Finite 0, Finite 10, Finite 1), (Finite 20, Finite 30, Finite 2), (Finite 40, Finite 50, Finite 3)] :: moment list)
           \<or> fge (total_of (take k [(Finite 0, Finite 10, Finite 1), (Finite 20, Finite 30, Finite 2), (Finite 40, Finite 50, Finite 3)])) (Finite 15))"
  by (rule conjunct1 [OF C4_assembler_stopping_rule
        [of "[(Finite 0, Finite 10, Finite 1), (Finite 20, Finite 30, Finite 2), (Finite 40, Finite 50, Finite 3)]" 15]])

subsection \<open>Feature widths and the scoring step\<close>

lemma ex_frame_length: "frame_length ex_catcher = 3"
  by (simp add: frame_length_def ex_catcher_def py_int_def float_eval)

lemma ex_hop_length: "hop_length ex_catcher = 1"
  by (simp add: hop_length_def ex_frame_length py_int_def float_eval)

lemma ex_window_starts: "window_starts ex_catcher [0, 1, 0, -1, 0, 1, 0, -1, 0, 1] = Inr [0,1,2,3,4,5,6]"
  by (simp add: window_starts_def ex_frame_length ex_hop_length py_range_def upt_conv_Cons)

lemma visual_loop_len: "length (visual_loop fs n p acc) = length acc + length fs"
  by (induction fs arbitrary: n p acc) (auto simp: Let_def)

lemma visual_loop_width: "list_all (\<lambda>r. length r = 4) acc \<Longrightarrow> list_all (\<lambda>r. length r = 4) (visual_loop fs n p acc)"
  by (induction fs arbitrary: n p acc) (simp_all add: Let_def)

lemma audio_width:
  assumes "extract_audio_features c = Inr af"
  shows "list_all (\<lambda>r. length r = 3) af \<or> list_all (\<lambda>r. length r = 1) af"
proof (cases "v_audio (clip c)")
  case None
  then show ?thesis using assms
    by (auto simp: extract_audio_features_def np_zeros_def list_all_iff split: if_splits sum.splits)
next
  case (Some a)
  then show ?thesis using assms
    by (auto simp: extract_audio_features_def Let_def list_all_iff split: sum.splits)
qed

lemma visual_width: "list_all (\<lambda>r. length r = 4) (extract_visual_features c)"
  by (simp add: extract_visual_features_def visual_loop_width)

lemma visual_length: "length (extract_visual_features c) = length (v_frames (clip c))"
  by (simp add: extract_visual_features_def visual_loop_len)

lemma np_dot_raises:
  assumes "m \<noteq> []" and "list_all (\<lambda>r. length r \<noteq> length w) m"
  shows "np_dot m w = Inl ValueError"
proof -
  from assms obtain r rs where "m = r # rs" by (cases m) auto
  with assms(2) show ?thesis by (simp add: np_dot_def)
qed

lemma hstack_width:
  assumes "list_all (\<lambda>r. length r = a) xs" and "list_all (\<lambda>r. length r = b) ys"
  shows "list_all (\<lambda>r. length r = a + b) (np_hstack xs ys)"
  using assms
  by (auto simp: np_hstack_def list_all_iff dest!: set_zip_leftD set_zip_rightD elim!: in_set_zipE)

lemma fit_transform_width:
  "list_all (\<lambda>r. length r = n) m \<Longrightarrow> list_all (\<lambda>r. length r = n) (fit_transform m)"
  by (simp add: fit_transform_def list_all_iff)

lemma excitement_scores_raises:
  assumes "af \<noteq> []" and "vf \<noteq> []"
    and "list_all (\<lambda>r. length r = a) af" and "list_all (\<lambda>r. length r = 4) vf"
    and "a + 4 \<noteq> 6"
  shows "excitement_scores af vf = Inl ValueError"
proof -
  let ?n = "min (length af) (length vf)"
  let ?c = "np_hstack (take ?n af) (take ?n vf)"
  have n: "0 < ?n" using assms(1,2) by (cases af; cases vf) simp_all
  have "list_all (\<lambda>r. length r = a) (take ?n af)" "list_all (\<lambda>r. length r = 4) (take ?n vf)"
    using assms(3,4) by (auto simp: list_all_iff dest: in_set_takeD)
  then have "list_all (\<lambda>r. length r = a + 4) ?c" by (rule hstack_width)
  then have "list_all (\<lambda>r. length r = a + 4) (fit_transform ?c)" by (rule fit_transform_width)
  then have w: "list_all (\<lambda>r. length r \<noteq> length weights) (fit_transform ?c)"
    using assms(5) by (simp add: weights_def list_all_iff)
  have "length ?c = ?n" by (simp add: np_hstack_def)
  then have "length (fit_transform ?c) = ?n" by (simp add: fit_transform_def)
  then have "fit_transform ?c \<noteq> []" using n by (metis length_0_conv less_numeral_extra(3))
  then have "np_dot (fit_transform ?c) weights = Inl ValueError" using w by (rule np_dot_raises)
  then show ?thesis by (simp add: excitement_scores_def Let_def)
qed

text \<open>
  With at least one audio row and one frame the combined rows have 7 or 5 entries, and
  the product with the six weights raises.
\<close>

lemma scoring_raises:
  assumes "extract_audio_features c = Inr af" and "af \<noteq> []" and "v_frames (clip c) \<noteq> []"
  shows "excitement_scores af (extract_visual_features c) = Inl ValueError"
proof -
  have vf: "extract_visual_features c \<noteq> []"
    using visual_length [of c] assms(3) by auto
  from audio_width [OF assms(1)] show ?thesis
  proof
    assume "list_all (\<lambda>r. length r = 3) af"
    then show ?thesis using excitement_scores_raises [OF assms(2) vf _ visual_width, of 3] by simp
  next
    assume "list_all (\<lambda>r. length r = 1) af"
    then show ?thesis using excitement_scores_raises [OF assms(2) vf _ visual_width, of 1] by simp
  qed
qed

lemma detect_moments_raises:
  assumes "extract_audio_features c = Inr af" and "af \<noteq> []" and "v_frames (clip c) \<noteq> []"
  shows "detect_moments num_moments moment_duration c = Inl ValueError"
proof -
  have vf: "extract_visual_features c \<noteq> []"
    using visual_length [of c] assms(3) by auto
  then show ?thesis using assms(1,2) scoring_raises [OF assms] by (simp add: detect_moments_def Let_def)
qed

lemma audio_errors:
  assumes "extract_audio_features c = Inl e"
  shows "e = ValueError \<or> e = OverflowError"
  using assms
  by (auto simp: extract_audio_features_def int_of_float_def np_zeros_def window_starts_def py_range_def Let_def
      split: option.splits if_splits sum.splits pyfloat.splits)

text \<open>
  A run of \<^verbatim>\<open>detect_moments\<close> raises, or returns the list that the instance holds and
  leaves the instance as it is: no run reaches line 148.
\<close>

lemma detect_moments_outcome:
  "detect_moments num_moments moment_duration c = Inl ValueError
   \<or> detect_moments num_moments moment_duration c = Inl OverflowError
   \<or> detect_moments num_moments moment_duration c = Inr (moments c, c)"
proof (cases "extract_audio_features c")
  case (Inl e)
  then have "detect_moments num_moments moment_duration c = Inl e" by (simp add: detect_moments_def)
  then show ?thesis using audio_errors [OF Inl] by auto
next
  case (Inr af)
  show ?thesis
  proof (cases "af \<noteq> [] \<and> v_frames (clip c) \<noteq> []")
    case True
    then show ?thesis using detect_moments_raises [OF Inr] by blast
  next
    case False
    then have "\<not> (length af > 0 \<and> length (extract_visual_features c) > 0)"
      using visual_length [of c] by auto
    then show ?thesis using Inr by (auto simp: detect_moments_def Let_def)
  qed
qed



lemma ex_fields:
  "clip ex_catcher = ex_video" "fps ex_catcher = 30" "duration ex_catcher = 1" "moments ex_catcher = []"
  "video_path ex_catcher = ''uploads/a.mp4''"
  "v_audio ex_video = Some (Mono [0, 1, 0, -1, 0, 1, 0, -1, 0, 1])"
  "v_frames ex_video = [\<lparr>pixels = [(0, 0, 0)], gray = [0], edges = [0]\<rparr>]"
  by (simp_all add: ex_catcher_def ex_video_def)

lemma ex_audio: "\<exists>af. extract_audio_features ex_catcher = Inr af \<and> af \<noteq> []"
  by (simp add: extract_audio_features_def ex_fields mono_mix_def Let_def ex_window_starts)

lemma ex_detect: "detect_moments 10 3 ex_catcher = Inl ValueError"
proof -
  from ex_audio obtain af where "extract_audio_features ex_catcher = Inr af" "af \<noteq> []" by blast
  then show ?thesis by (rule detect_moments_raises) (simp add: ex_fields)
qed

subsection \<open>The local maxima found by the peak finder\<close>

lemma plateau_end_le: "i_ahead \<le> i_max \<Longrightarrow> plateau_end x i_max i i_ahead \<le> i_max"
proof (induction x i_max i i_ahead rule: plateau_end.induct)
  case (1 x i_max i i_ahead)
  show ?case
  proof (cases "i_ahead < i_max \<and> x ! i_ahead = x ! i")
    case True
    then have "plateau_end x i_max i (i_ahead + 1) \<le> i_max" using 1 by simp
    then show ?thesis using True by (subst plateau_end.simps) simp
  next
    case False
    then show ?thesis using 1(2) by (subst plateau_end.simps) auto
  qed
qed

lemma plateau_end_flat:
  "\<forall>k. i \<le> k \<and> k < i_ahead \<longrightarrow> x ! k = x ! i \<Longrightarrow>
   \<forall>k. i \<le> k \<and> k < plateau_end x i_max i i_ahead \<longrightarrow> x ! k = x ! i"
proof (induction x i_max i i_ahead rule: plateau_end.induct)
  case (1 x i_max i i_ahead)
  show ?case
  proof (cases "i_ahead < i_max \<and> x ! i_ahead = x ! i")
    case True
    have eq: "plateau_end x i_max i i_ahead = plateau_end x i_max i (i_ahead + 1)"
      using True by (subst plateau_end.simps) simp
    have "\<forall>k. i \<le> k \<and> k < i_ahead + 1 \<longrightarrow> x ! k = x ! i"
    proof (intro allI impI)
      fix k assume k: "i \<le> k \<and> k < i_ahead + 1"
      show "x ! k = x ! i"
      proof (cases "k = i_ahead")
        case True
        then show ?thesis using \<open>i_ahead < i_max \<and> x ! i_ahead = x ! i\<close> by blast
      next
        case False
        then have "i \<le> k \<and> k < i_ahead" using k by linarith
        then show ?thesis using 1(2) by blast
      qed
    qed
    then show ?thesis unfolding eq using 1(1) True by blast
  next
    case False
    have eq: "plateau_end x i_max i i_ahead = i_ahead"
      using False by (subst plateau_end.simps) auto
    show ?thesis unfolding eq using 1(2) .
  qed
qed

lemma midpoint_is_peak:
  assumes i: "1 \<le> i" "i < length x - 1"
    and up: "x ! (i - 1) < x ! i"
    and e: "e = plateau_end x (length x - 1) i (i + 1)"
    and down: "x ! e < x ! i"
    and m: "m = (i + (e - 1)) div 2"
  shows "is_peak x m \<and> i \<le> m \<and> m < e"
proof -
  have ge: "i + 1 \<le> e" unfolding e by (rule plateau_end_ge)
  have "i + 1 \<le> length x - 1" using i(2) by simp
  then have le: "e \<le> length x - 1" unfolding e by (rule plateau_end_le)
  have "\<forall>k. i \<le> k \<and> k < i + 1 \<longrightarrow> x ! k = x ! i"
  proof (intro allI impI)
    fix k assume "i \<le> k \<and> k < i + 1"
    then have "k = i" by linarith
    then show "x ! k = x ! i" by simp
  qed
  then have flat: "\<forall>k. i \<le> k \<and> k < e \<longrightarrow> x ! k = x ! i"
    unfolding e by (rule plateau_end_flat)
  have m1: "i \<le> m" using ge unfolding m by linarith
  have m2: "m < e" using ge unfolding m by linarith
  have xm: "x ! m = x ! i" using flat m1 m2 by blast
  have l: "x ! (m - 1) \<le> x ! m"
  proof (cases "m = i")
    case True
    then show ?thesis using up xm by simp
  next
    case False
    have "i \<le> m - 1" using m1 False by linarith
    moreover have "m - 1 < e" using m2 by linarith
    ultimately have "x ! (m - 1) = x ! i" using flat by blast
    then show ?thesis using xm by simp
  qed
  have r: "x ! (m + 1) \<le> x ! m"
  proof (cases "m + 1 = e")
    case True
    then have "x ! (m + 1) < x ! i" using down by simp
    then show ?thesis using xm by simp
  next
    case False
    have "i \<le> m + 1" using m1 by linarith
    moreover have "m + 1 < e" using m2 False by linarith
    ultimately have "x ! (m + 1) = x ! i" using flat by blast
    then show ?thesis using xm by simp
  qed
  have "0 < m" using m1 i(1) by linarith
  moreover have "m + 1 < length x" using m2 le i(2) by linarith
  ultimately have "is_peak x m"
    unfolding is_peak_def using l r by blast
  then show ?thesis using m1 m2 by blast
qed

lemma local_maxima_loop_inv:
  "1 \<le> i \<Longrightarrow> i_max = length x - 1 \<Longrightarrow> sorted_wrt (<) acc \<Longrightarrow> \<forall>m\<in>set acc. m < i \<and> is_peak x m \<Longrightarrow>
   sorted_wrt (<) (local_maxima_loop x i_max i acc) \<and> (\<forall>m\<in>set (local_maxima_loop x i_max i acc). is_peak x m)"
proof (induction x i_max i acc rule: local_maxima_loop.induct)
  case (1 x i_max i acc)
  define e where "e = plateau_end x i_max i (i + 1)"
  define m where "m = (i + (e - 1)) div 2"
  have step: "local_maxima_loop x i_max i acc =
     (if i < i_max then
        (if x ! (i - 1) < x ! i \<and> x ! e < x ! i
         then local_maxima_loop x i_max (e + 1) (acc @ [m])
         else local_maxima_loop x i_max (i + 1) acc)
      else acc)"
    unfolding e_def m_def by (rule local_maxima_loop.simps)
  show ?case
  proof (cases "i < i_max")
    case False
    then have eq: "local_maxima_loop x i_max i acc = acc"
      unfolding step by simp
    show ?thesis unfolding eq using 1(5,6) by blast
  next
    case lt: True
    show ?thesis
    proof (cases "x ! (i - 1) < x ! i \<and> x ! e < x ! i")
      case True
      have eq: "local_maxima_loop x i_max i acc = local_maxima_loop x i_max (e + 1) (acc @ [m])"
        unfolding step using lt True by simp
      have "i < length x - 1" using lt 1(4) by simp
      moreover have "e = plateau_end x (length x - 1) i (i + 1)" unfolding e_def 1(4) ..
      ultimately have pk: "is_peak x m \<and> i \<le> m \<and> m < e"
        using midpoint_is_peak [of i x e m] 1(3) True m_def by blast
      have "\<forall>a\<in>set acc. a < m" using 1(6) pk by fastforce
      then have s: "sorted_wrt (<) (acc @ [m])"
        using 1(5) by (simp add: sorted_wrt_append)
      have a: "\<forall>a\<in>set (acc @ [m]). a < e + 1 \<and> is_peak x a"
      proof
        fix a assume "a \<in> set (acc @ [m])"
        then consider "a \<in> set acc" | "a = m" by auto
        then show "a < e + 1 \<and> is_peak x a"
        proof cases
          case 1
          then have "a < i" "is_peak x a" using \<open>\<forall>m\<in>set acc. m < i \<and> is_peak x m\<close> by blast+
          moreover have "i < e + 1" using pk by linarith
          ultimately show ?thesis by linarith
        next
          case 2
          then show ?thesis using pk by simp
        qed
      qed
      have "1 \<le> e + 1" by simp
      from 1(1) [OF lt True [unfolded e_def] this [unfolded e_def] 1(4) s [unfolded m_def e_def] a [unfolded m_def e_def]]
      show ?thesis unfolding eq m_def e_def .
    next
      case False
      have eq: "local_maxima_loop x i_max i acc = local_maxima_loop x i_max (i + 1) acc"
        unfolding step by (simp only: lt False if_True if_False)
      have a: "\<forall>m\<in>set acc. m < i + 1 \<and> is_peak x m" using 1(6) by auto
      have "1 \<le> i + 1" by simp
      from 1(2) [OF lt False [unfolded e_def] this 1(4) 1(5) a]
      show ?thesis unfolding eq .
    qed
  qed
qed

lemma local_maxima_1d_props:
  "sorted_wrt (<) (local_maxima_1d x)" "m \<in> set (local_maxima_1d x) \<Longrightarrow> is_peak x m"
  using local_maxima_loop_inv [of 1 "length x - 1" x "[]"] by (auto simp: local_maxima_1d_def)

subsection \<open>The distance filter of the peak finder\<close>

lemma sweep_left_props:
  assumes "sorted peaks" "j < length peaks"
  shows "kk \<le> j \<Longrightarrow>
     length (sweep_left peaks d j kk keep) = length keep
     \<and> (\<forall>q. sweep_left peaks d j kk keep ! q \<longrightarrow> keep ! q)
     \<and> (\<forall>q. kk \<le> q \<longrightarrow> sweep_left peaks d j kk keep ! q = keep ! q)
     \<and> (\<forall>q < kk. q < length keep \<longrightarrow> int (peaks ! j) - int (peaks ! q) < d \<longrightarrow> \<not> sweep_left peaks d j kk keep ! q)"
proof (induction kk arbitrary: keep)
  case 0
  then show ?case by simp
next
  case (Suc k)
  show ?case
  proof (cases "int (peaks ! j) - int (peaks ! k) < d")
    case True
    let ?k1 = "keep[k := False]"
    have eq: "sweep_left peaks d j (Suc k) keep = sweep_left peaks d j k ?k1"
      using True by simp
    have "k \<le> j" using Suc.prems by simp
    from Suc.IH [OF this, of ?k1]
    have ih: "length (sweep_left peaks d j k ?k1) = length ?k1"
      "\<forall>q. sweep_left peaks d j k ?k1 ! q \<longrightarrow> ?k1 ! q"
      "\<forall>q. k \<le> q \<longrightarrow> sweep_left peaks d j k ?k1 ! q = ?k1 ! q"
      "\<forall>q < k. q < length ?k1 \<longrightarrow> int (peaks ! j) - int (peaks ! q) < d \<longrightarrow> \<not> sweep_left peaks d j k ?k1 ! q"
      by blast+
    have a: "length (sweep_left peaks d j k ?k1) = length keep" using ih(1) by simp
    have mono1: "\<forall>q. ?k1 ! q \<longrightarrow> keep ! q"
    proof (intro allI impI)
      fix q assume q: "?k1 ! q"
      show "keep ! q"
      proof (cases "q = k")
        case True
        show ?thesis
        proof (cases "k < length keep")
          case True
          then have "?k1 ! k = False" by simp
          then show ?thesis using q \<open>q = k\<close> by simp
        next
          case False
          then have "?k1 = keep" by (simp add: list_update_beyond)
          then show ?thesis using q by simp
        qed
      next
        case False
        then show ?thesis using q by simp
      qed
    qed
    have b: "\<forall>q. sweep_left peaks d j k ?k1 ! q \<longrightarrow> keep ! q" using ih(2) mono1 by blast
    have c: "\<forall>q. Suc k \<le> q \<longrightarrow> sweep_left peaks d j k ?k1 ! q = keep ! q"
    proof (intro allI impI)
      fix q assume "Suc k \<le> q"
      then have "k \<le> q" "q \<noteq> k" by simp_all
      then have "sweep_left peaks d j k ?k1 ! q = ?k1 ! q" using ih(3) by blast
      also have "\<dots> = keep ! q" using \<open>q \<noteq> k\<close> by simp
      finally show "sweep_left peaks d j k ?k1 ! q = keep ! q" .
    qed
    have e: "\<forall>q < Suc k. q < length keep \<longrightarrow> int (peaks ! j) - int (peaks ! q) < d \<longrightarrow> \<not> sweep_left peaks d j k ?k1 ! q"
    proof (intro allI impI)
      fix q assume q: "q < Suc k" "q < length keep" "int (peaks ! j) - int (peaks ! q) < d"
      show "\<not> sweep_left peaks d j k ?k1 ! q"
      proof (cases "q = k")
        case True
        have "sweep_left peaks d j k ?k1 ! k = ?k1 ! k" using ih(3) by blast
        also have "\<dots> = False" using q(2) True by simp
        finally show ?thesis using True by simp
      next
        case False
        then have "q < k" using q(1) by simp
        then show ?thesis using ih(4) q(2,3) by simp
      qed
    qed
    show ?thesis unfolding eq using a b c e by blast
  next
    case False
    have eq: "sweep_left peaks d j (Suc k) keep = keep" using False by simp
    have "\<forall>q < Suc k. q < length keep \<longrightarrow> int (peaks ! j) - int (peaks ! q) < d \<longrightarrow> \<not> keep ! q"
    proof (intro allI impI)
      fix q assume q: "q < Suc k" "int (peaks ! j) - int (peaks ! q) < d"
      have "q \<le> k" using q(1) by simp
      moreover have "k < length peaks" using Suc.prems assms(2) by simp
      ultimately have "peaks ! q \<le> peaks ! k" using assms(1) by (simp add: sorted_iff_nth_mono)
      then have "int (peaks ! j) - int (peaks ! k) \<le> int (peaks ! j) - int (peaks ! q)" by simp
      then show "\<not> keep ! q" using False q(2) by linarith
    qed
    then show ?thesis unfolding eq by simp
  qed
qed

lemma sweep_right_props:
  "sorted peaks \<Longrightarrow> j < k \<Longrightarrow>
     length (sweep_right peaks d j k keep) = length keep
     \<and> (\<forall>q. sweep_right peaks d j k keep ! q \<longrightarrow> keep ! q)
     \<and> (\<forall>q < k. sweep_right peaks d j k keep ! q = keep ! q)
     \<and> (\<forall>q. k \<le> q \<longrightarrow> q < length peaks \<longrightarrow> q < length keep \<longrightarrow> int (peaks ! q) - int (peaks ! j) < d \<longrightarrow> \<not> sweep_right peaks d j k keep ! q)"
proof (induction peaks d j k keep rule: sweep_right.induct)
  case (1 peaks d j k keep)
  have srt: "sorted peaks" using 1(2) .
  show ?case
  proof (cases "k < length peaks \<and> int (peaks ! k) - int (peaks ! j) < d")
    case True
    let ?k1 = "keep[k := False]"
    have eq: "sweep_right peaks d j k keep = sweep_right peaks d j (k + 1) ?k1"
      using True by (subst sweep_right.simps) simp
    have "j < k + 1" using 1(3) by simp
    from 1(1) [OF True srt this]
    have ih: "length (sweep_right peaks d j (k + 1) ?k1) = length ?k1"
      "\<forall>q. sweep_right peaks d j (k + 1) ?k1 ! q \<longrightarrow> ?k1 ! q"
      "\<forall>q < k + 1. sweep_right peaks d j (k + 1) ?k1 ! q = ?k1 ! q"
      "\<forall>q. k + 1 \<le> q \<longrightarrow> q < length peaks \<longrightarrow> q < length ?k1 \<longrightarrow> int (peaks ! q) - int (peaks ! j) < d \<longrightarrow> \<not> sweep_right peaks d j (k + 1) ?k1 ! q"
      by blast+
    have a: "length (sweep_right peaks d j (k + 1) ?k1) = length keep" using ih(1) by simp
    have mono1: "\<forall>q. ?k1 ! q \<longrightarrow> keep ! q"
    proof (intro allI impI)
      fix q assume q: "?k1 ! q"
      show "keep ! q"
      proof (cases "q = k")
        case True
        show ?thesis
        proof (cases "k < length keep")
          case True
          then have "?k1 ! k = False" by simp
          then show ?thesis using q \<open>q = k\<close> by simp
        next
          case False
          then have "?k1 = keep" by (simp add: list_update_beyond)
          then show ?thesis using q by simp
        qed
      next
        case False
        then show ?thesis using q by simp
      qed
    qed
    have b: "\<forall>q. sweep_right peaks d j (k + 1) ?k1 ! q \<longrightarrow> keep ! q" using ih(2) mono1 by blast
    have c: "\<forall>q < k. sweep_right peaks d j (k + 1) ?k1 ! q = keep ! q"
    proof (intro allI impI)
      fix q assume "q < k"
      then have "q < k + 1" "q \<noteq> k" by simp_all
      then have "sweep_right peaks d j (k + 1) ?k1 ! q = ?k1 ! q" using ih(3) by blast
      also have "\<dots> = keep ! q" using \<open>q \<noteq> k\<close> by simp
      finally show "sweep_right peaks d j (k + 1) ?k1 ! q = keep ! q" .
    qed
    have e: "\<forall>q. k \<le> q \<longrightarrow> q < length peaks \<longrightarrow> q < length keep \<longrightarrow> int (peaks ! q) - int (peaks ! j) < d \<longrightarrow> \<not> sweep_right peaks d j (k + 1) ?k1 ! q"
    proof (intro allI impI)
      fix q assume q: "k \<le> q" "q < length peaks" "q < length keep" "int (peaks ! q) - int (peaks ! j) < d"
      show "\<not> sweep_right peaks d j (k + 1) ?k1 ! q"
      proof (cases "q = k")
        case True
        have "sweep_right peaks d j (k + 1) ?k1 ! k = ?k1 ! k" using ih(3) by simp
        also have "\<dots> = False" using q(3) True by simp
        finally show ?thesis using True by simp
      next
        case False
        then have "k + 1 \<le> q" using q(1) by simp
        then show ?thesis using ih(4) q(2,3,4) by simp
      qed
    qed
    show ?thesis unfolding eq using a b c e by blast
  next
    case False
    have eq: "sweep_right peaks d j k keep = keep"
      using False by (subst sweep_right.simps) auto
    have "\<forall>q. k \<le> q \<longrightarrow> q < length peaks \<longrightarrow> q < length keep \<longrightarrow> int (peaks ! q) - int (peaks ! j) < d \<longrightarrow> \<not> keep ! q"
    proof (intro allI impI)
      fix q assume q: "k \<le> q" "q < length peaks" "int (peaks ! q) - int (peaks ! j) < d"
      have "peaks ! k \<le> peaks ! q" using q(1,2) srt by (simp add: sorted_iff_nth_mono)
      then have "int (peaks ! k) - int (peaks ! j) \<le> int (peaks ! q) - int (peaks ! j)" by simp
      moreover have "k < length peaks" using q(1,2) by simp
      ultimately show "\<not> keep ! q" using False q(3) by linarith
    qed
    then show ?thesis unfolding eq by simp
  qed
qed

lemma sweep_both:
  fixes d :: int
  assumes "sorted_wrt (<) peaks" "j < length peaks" "length keep = length peaks"
    and keep'_def: "keep' = sweep_right peaks d j (j + 1) (sweep_left peaks d j j keep)"
  shows "length keep' = length keep"
    and "\<forall>q. keep' ! q \<longrightarrow> keep ! q"
    and "keep' ! j = keep ! j"
    and "\<forall>q < length peaks. near peaks d j q \<longrightarrow> \<not> keep' ! q"
proof -
  have srt: "sorted peaks" using assms(1) by (simp add: strict_sorted_imp_sorted)
  let ?l = "sweep_left peaks d j j keep"
  from sweep_left_props [OF srt assms(2), of j d keep]
  have l: "length ?l = length keep" "\<forall>q. ?l ! q \<longrightarrow> keep ! q" "\<forall>q. j \<le> q \<longrightarrow> ?l ! q = keep ! q"
    "\<forall>q < j. q < length keep \<longrightarrow> int (peaks ! j) - int (peaks ! q) < d \<longrightarrow> \<not> ?l ! q"
    by blast+
  have "j < j + 1" by simp
  from sweep_right_props [OF srt this, of d ?l]
  have r: "length keep' = length ?l" "\<forall>q. keep' ! q \<longrightarrow> ?l ! q" "\<forall>q < j + 1. keep' ! q = ?l ! q"
    "\<forall>q. j + 1 \<le> q \<longrightarrow> q < length peaks \<longrightarrow> q < length ?l \<longrightarrow> int (peaks ! q) - int (peaks ! j) < d \<longrightarrow> \<not> keep' ! q"
    unfolding keep'_def by blast+
  show "length keep' = length keep" using r(1) l(1) by simp
  show "\<forall>q. keep' ! q \<longrightarrow> keep ! q" using r(2) l(2) by blast
  have "keep' ! j = ?l ! j" using r(3) by simp
  then show "keep' ! j = keep ! j" using l(3) by simp
  show "\<forall>q < length peaks. near peaks d j q \<longrightarrow> \<not> keep' ! q"
  proof (intro allI impI)
    fix q assume q: "q < length peaks" "near peaks d j q"
    then have ne: "q \<noteq> j" and cl: "\<bar>int (peaks ! q) - int (peaks ! j)\<bar> < d"
      by (simp_all add: near_def)
    show "\<not> keep' ! q"
    proof (cases "q < j")
      case True
      have "int (peaks ! j) - int (peaks ! q) < d" using cl by linarith
      then have "\<not> ?l ! q" using l(4) True q(1) assms(3) by simp
      then show ?thesis using r(2) by blast
    next
      case False
      then have "j + 1 \<le> q" using ne by simp
      moreover have "int (peaks ! q) - int (peaks ! j) < d" using cl by linarith
      ultimately show ?thesis using r(4) q(1) l(1) assms(3) by simp
    qed
  qed
qed

lemma distance_loop_inv:
  assumes "sorted_wrt (<) peaks"
  shows "length keep = length peaks \<Longrightarrow> \<forall>j \<in> set js. j < length peaks \<Longrightarrow> settled peaks d D keep \<Longrightarrow>
     length (distance_loop peaks d js keep) = length peaks
     \<and> settled peaks d (D \<union> set js) (distance_loop peaks d js keep)"
proof (induction js arbitrary: keep D)
  case Nil
  then show ?case by simp
next
  case (Cons j js)
  have jl: "j < length peaks" using Cons.prems(2) by simp
  have rest: "\<forall>j \<in> set js. j < length peaks" using Cons.prems(2) by simp
  show ?case
  proof (cases "keep ! j")
    case False
    have eq: "distance_loop peaks d (j # js) keep = distance_loop peaks d js keep"
      using False by simp
    have "settled peaks d (insert j D) keep"
      using Cons.prems(3) False by (simp add: settled_def)
    from Cons.IH [OF Cons.prems(1) rest this]
    show ?thesis unfolding eq by simp
  next
    case True
    define keep' where "keep' = sweep_right peaks d j (j + 1) (sweep_left peaks d j j keep)"
    have eq: "distance_loop peaks d (j # js) keep = distance_loop peaks d js keep'"
      using True by (simp add: keep'_def)
    from sweep_both [OF assms jl Cons.prems(1) keep'_def]
    have sb: "length keep' = length keep" "\<forall>q. keep' ! q \<longrightarrow> keep ! q"
      "\<forall>q < length peaks. near peaks d j q \<longrightarrow> \<not> keep' ! q"
      by blast+
    have len: "length keep' = length peaks" using sb(1) Cons.prems(1) by simp
    have "settled peaks d (insert j D) keep'"
      unfolding settled_def
    proof (intro ballI impI allI)
      fix i q assume i: "i \<in> insert j D" "keep' ! i" and q: "q < length peaks" "near peaks d i q"
      show "\<not> keep' ! q"
      proof (cases "i = j")
        case True
        then show ?thesis using sb(3) q by blast
      next
        case False
        then have "i \<in> D" using i(1) by simp
        moreover have "keep ! i" using i(2) sb(2) by blast
        ultimately have "\<not> keep ! q" using Cons.prems(3) q by (auto simp: settled_def)
        then show ?thesis using sb(2) by blast
      qed
    qed
    from Cons.IH [OF len rest this]
    show ?thesis unfolding eq by simp
  qed
qed

lemma np_argsort_is: "is_argsort xs (np_argsort xs)"
proof -
  have "is_argsort xs (sort_key (\<lambda>i. xs ! i) [0..<length xs])" by (simp add: is_argsort_def)
  then show ?thesis unfolding np_argsort_def by (rule someI)
qed

lemma set_np_argsort: "set (np_argsort xs) = {0..<length xs}"
  using np_argsort_is [of xs] by (simp add: is_argsort_def)

lemma length_np_argsort: "length (np_argsort xs) = length xs"
proof -
  have "distinct (np_argsort xs)" using np_argsort_is [of xs] by (simp add: is_argsort_def)
  then have "length (np_argsort xs) = card (set (np_argsort xs))" by (simp add: distinct_card)
  then show ?thesis by (simp add: set_np_argsort)
qed

lemma select_by_peak_distance_props:
  fixes d :: int
  assumes "sorted_wrt (<) peaks" "length priority = length peaks"
    and keep_def: "keep = select_by_peak_distance peaks priority d"
  shows "length keep = length peaks"
    and "\<lbrakk>a < length peaks; b < length peaks; keep ! a; keep ! b; a \<noteq> b\<rbrakk>
          \<Longrightarrow> d \<le> \<bar>int (peaks ! a) - int (peaks ! b)\<bar>"
proof -
  let ?js = "rev (np_argsort priority)"
  have a: "length (replicate (length peaks) True) = length peaks" by simp
  have b: "\<forall>j \<in> set ?js. j < length peaks" using assms(2) by (simp add: set_np_argsort)
  have c: "settled peaks d {} (replicate (length peaks) True)" by (simp add: settled_def)
  from distance_loop_inv [OF assms(1) a b c]
  have r: "length keep = length peaks" "settled peaks d (set ?js) keep"
    unfolding keep_def select_by_peak_distance_def by simp_all
  show "length keep = length peaks" by (rule r(1))
  assume ab: "a < length peaks" "b < length peaks" "keep ! a" "keep ! b" "a \<noteq> b"
  have "b \<in> set ?js" using ab(2) assms(2) by (simp add: set_np_argsort)
  then have "\<not> near peaks d b a" using r(2) ab(1,3,4) by (auto simp: settled_def)
  then show "d \<le> \<bar>int (peaks ! a) - int (peaks ! b)\<bar>" using ab(5) by (simp add: near_def)
qed

subsection \<open>The peak finder and the top selection\<close>

lemma find_peaks_props:
  assumes "find_peaks x h d = Inr ps"
  shows "1 \<le> d"
    and "p \<in> set ps \<Longrightarrow> is_peak x p \<and> h \<le> x ! p"
    and "\<lbrakk>p \<in> set ps; q \<in> set ps; p \<noteq> q\<rbrakk> \<Longrightarrow> d \<le> \<bar>int p - int q\<bar>"
proof -
  show d: "1 \<le> d" using assms by (auto simp: find_peaks_def split: if_splits)
  define peaks where "peaks = filter (\<lambda>p. h \<le> x ! p) (local_maxima_1d x)"
  define keep where "keep = select_by_peak_distance peaks (map (\<lambda>p. x ! p) peaks) d"
  have ps: "ps = map fst (filter snd (zip peaks keep))"
    using assms d unfolding peaks_def keep_def by (simp add: find_peaks_def Let_def)
  have srt: "sorted_wrt (<) peaks"
    unfolding peaks_def using local_maxima_1d_props(1) [of x] by (rule sorted_wrt_filter)
  have len: "length (map (\<lambda>p. x ! p) peaks) = length peaks" by simp
  note sel = select_by_peak_distance_props [OF srt len keep_def]
  have mem: "\<And>p. p \<in> set ps \<Longrightarrow> \<exists>a < length peaks. p = peaks ! a \<and> keep ! a"
  proof -
    fix p assume "p \<in> set ps"
    then obtain b where "(p, b) \<in> set (zip peaks keep)" "b" unfolding ps by auto
    then show "\<exists>a < length peaks. p = peaks ! a \<and> keep ! a"
      by (auto simp: in_set_zip)
  qed
  {
    assume "p \<in> set ps"
    then obtain a where a: "a < length peaks" "p = peaks ! a" using mem by blast
    then have "p \<in> set peaks" by simp
    then show "is_peak x p \<and> h \<le> x ! p"
      unfolding peaks_def using local_maxima_1d_props(2) [of p x] by simp
  }
  {
    assume pq: "p \<in> set ps" "q \<in> set ps" "p \<noteq> q"
    from mem [OF pq(1)] obtain a where a: "a < length peaks" "p = peaks ! a" "keep ! a" by blast
    from mem [OF pq(2)] obtain b where b: "b < length peaks" "q = peaks ! b" "keep ! b" by blast
    have "a \<noteq> b" using pq(3) a(2) b(2) by blast
    from sel(2) [OF a(1) b(1) a(3) b(3) this]
    show "d \<le> \<bar>int p - int q\<bar>" using a(2) b(2) by simp
  }
qed

lemma set_top_peaks: "set (top_peaks k scores peaks) \<subseteq> set peaks"
proof
  fix p assume "p \<in> set (top_peaks k scores peaks)"
  then obtain i where i: "i \<in> set (py_slice_from (np_argsort (map (\<lambda>p. scores ! p) peaks)) (- k))" "p = peaks ! i"
    by (auto simp: top_peaks_def Let_def)
  then have "i \<in> set (np_argsort (map (\<lambda>p. scores ! p) peaks))"
    by (auto simp: py_slice_from_def dest: in_set_dropD)
  then have "i < length peaks" by (simp add: set_np_argsort)
  then show "p \<in> set peaks" using i(2) by simp
qed

lemma length_top_peaks: "0 < k \<Longrightarrow> length (top_peaks k scores peaks) \<le> nat k"
  by (simp add: top_peaks_def Let_def py_slice_from_def py_bound_def length_np_argsort)

lemma cx_fields: "fps cx = 1" "duration cx = 7" "moments cx = []"
  by (simp_all add: cx_def)

lemma cy_fields: "fps cy = 100" "duration cy = fl (29 / 100)" "moments cy = []"
  "clip cy = \<lparr>v_fps = 100, v_duration = fl (29 / 100), v_audio = None, v_frames = []\<rparr>"
  by (simp_all add: cy_def)

subsection \<open>Facts about the example inputs\<close>

lemma cx_more: "clip cx = \<lparr>v_fps = 1, v_duration = 7, v_audio = None, v_frames = []\<rparr>" "video_path cx = ''clip.mp4''"
  by (simp_all add: cx_def)

lemma cx_audio: "extract_audio_features cx = Inr (replicate 7 [0])"
  by (simp add: extract_audio_features_def cx_more cx_fields int_of_float_def np_zeros_def py_int_def float_eval)

lemma cx_detect: "detect_moments num_moments moment_duration cx = Inr ([], cx)"
proof -
  have "extract_visual_features cx = []" by (simp add: extract_visual_features_def cx_more)
  then show ?thesis by (simp add: detect_moments_def cx_audio cx_fields)
qed


lemma admit_empty_iff: "fst (admit max_duration ms) = [] \<longleftrightarrow> ms = [] \<or> max_duration \<le> 0"
proof (cases ms)
  case Nil
  then show ?thesis by (simp add: admit_def)
next
  case (Cons m rest)
  show ?thesis
  proof (cases "max_duration \<le> 0")
    case True
    then have "fge (Finite 0) (Finite max_duration)" by (auto simp: fge_def fle_def)
    then show ?thesis using Cons True by (simp add: admit_def)
  next
    case False
    then have n: "\<not> fge (Finite 0) (Finite max_duration)" by (auto simp: fge_def fle_def)
    let ?t = "fadd (Finite 0) (fsub (end_time m) (start_time m))"
    from admit_loop_prefix [of rest max_duration "[(start_time m, end_time m)]" ?t]
    obtain k where "admit_loop max_duration rest [(start_time m, end_time m)] ?t
        = ([(start_time m, end_time m)] @ map clip_of (take k rest), accumulate ?t (take k rest))"
      by blast
    then have "fst (admit max_duration ms) \<noteq> []" using Cons n by (simp add: admit_def)
    then show ?thesis using Cons False by simp
  qed
qed

lemma catcher_of_upload:
  "MomentCatcher ''uploads/a.mp4'' (w\<lparr>files := (files w)(''uploads/a.mp4'' \<mapsto> Some ex_video)\<rparr>)
     = Inr (ex_catcher, w\<lparr>files := (files w)(''uploads/a.mp4'' \<mapsto> Some ex_video),
                           open_clips := ''uploads/a.mp4'' # open_clips w\<rparr>)"
  by (simp add: MomentCatcher_def ex_catcher_def ex_video_def)


subsection \<open>The moments of an instance\<close>

text \<open>
  The constructor sets \<^verbatim>\<open>self.moments\<close> to the empty list, and the only assignment to
  it afterwards is line 160, which no run reaches: in every state of an instance the
  list is empty.
\<close>

lemma reachable_moments: "reachable c \<Longrightarrow> moments c = []"
proof (induction rule: reachable.induct)
  case (constructed path w c w')
  then show ?case by (auto simp: MomentCatcher_def split: option.splits)
next
  case (detected c num_moments moment_duration ms c')
  then show ?case using detect_moments_outcome [of num_moments moment_duration c] by auto
next
  case (generated c output_path max_duration w success c' w')
  from detect_moments_outcome [of 10 3 c] generated.hyps(2) generated.IH
  have "assemble output_path max_duration c w = Inr (success, c', w')"
    by (auto simp: generate_trailer_def)
  then have "c' = c" by (auto simp: assemble_def render_def split: if_splits)
  then show ?case using generated.IH by simp
qed


lemma reachable_ex: "reachable ex_catcher"
  by (rule reachable.constructed [OF catcher_of_upload [of w0]])


text \<open>
  On an instance in any of these states \<^verbatim>\<open>generate_trailer\<close> raises or returns
  \<^verbatim>\<open>False\<close>; it renders nothing.
\<close>

lemma reachable_generate:
  assumes "reachable c"
  shows "generate_trailer output_path max_duration c w = Inl (ValueError, w)
         \<or> generate_trailer output_path max_duration c w = Inl (OverflowError, w)
         \<or> generate_trailer output_path max_duration c w = Inr (False, c, w)"
  using reachable_moments [OF assms] detect_moments_outcome [of 10 3 c]
  by (auto simp: generate_trailer_def assemble_def render_def admit_def)

section \<open>The claims\<close>

subsection \<open>C1: the scoring step\<close>

lemma ex_audio_width:
  "extract_audio_features ex_catcher = Inr af \<Longrightarrow> list_all (\<lambda>r. length r = 3) af"
  by (auto simp: extract_audio_features_def ex_fields Let_def list_all_iff split: sum.splits)

text \<open>
  C1. The claim is that on a video with an audio track the scoring step completes and
  yields one score for each aligned window, without a dimensionality error. On the
  example video, which has an audio track, the audio rows have 3 columns and the
  visual rows 4, so the standardised rows have 7 entries while the weight vector has 6:
  \<^verbatim>\<open>np.dot\<close> raises \<^verbatim>\<open>ValueError\<close> and \<^verbatim>\<open>detect_moments\<close> raises with it. By
  \<open>detect_moments_raises\<close> the same happens on every input with at least one audio
  row and one frame.
\<close>

theorem C1_scoring_raises_on_seven_columns:
  "v_audio (clip ex_catcher) \<noteq> None
   \<and> (\<exists>af. extract_audio_features ex_catcher = Inr af \<and> af \<noteq> []
         \<and> list_all (\<lambda>r. length r = 3) af
         \<and> list_all (\<lambda>r. length r = 4) (extract_visual_features ex_catcher)
         \<and> excitement_scores af (extract_visual_features ex_catcher) = Inl ValueError)
   \<and> length weights = 6
   \<and> detect_moments 10 3 ex_catcher = Inl ValueError"
proof -
  from ex_audio obtain af where af: "extract_audio_features ex_catcher = Inr af" "af \<noteq> []"
    by blast
  have w3: "list_all (\<lambda>r. length r = 3) af" using af(1) by (rule ex_audio_width)
  have vf: "extract_visual_features ex_catcher \<noteq> []"
    using visual_length [of ex_catcher] by (auto simp: ex_fields)
  have "excitement_scores af (extract_visual_features ex_catcher) = Inl ValueError"
    using excitement_scores_raises [OF af(2) vf w3 visual_width] by simp
  moreover have "detect_moments 10 3 ex_catcher = Inl ValueError"
    using af by (rule detect_moments_raises) (simp add: ex_fields)
  moreover have "v_audio (clip ex_catcher) \<noteq> None" by (simp add: ex_fields)
  moreover have "length weights = 6" by (simp add: weights_def)
  ultimately show ?thesis using af w3 visual_width by blast
qed

subsection \<open>C9: the fallback without an audio track\<close>

text \<open>
  C9. Without an audio track \<^verbatim>\<open>extract_audio_features\<close> returns
  \<^verbatim>\<open>int(duration * fps)\<close> rows, each the single value zero; with an audio track every
  row it returns has three columns. The product is the one of two floats, rounded to
  the nearest double before it is truncated: for a duration of \<^verbatim>\<open>0.29\<close> seconds at 100
  frames per second it is \<^verbatim>\<open>28.999999999999996\<close>, which gives 28 rows. Durations and
  frame rates are not negative and their product is a finite float \<open>x\<close>, which is the
  hypothesis on the product.
\<close>

theorem C9_no_audio_fallback:
  "(v_audio (clip c) = None \<and> fmul (duration c) (fps c) = Finite x \<and> 0 \<le> x \<longrightarrow>
      x = fl (fl (duration c) * fl (fps c))
      \<and> extract_audio_features c = Inr (replicate (nat (py_int x)) [0]))
   \<and> (\<forall>a rows. v_audio (clip c) = Some a \<and> extract_audio_features c = Inr rows \<longrightarrow>
         list_all (\<lambda>r. length r = 3) rows)"
proof (intro conjI impI allI)
  assume h: "v_audio (clip c) = None \<and> fmul (duration c) (fps c) = Finite x \<and> 0 \<le> x"
  then show "x = fl (fl (duration c) * fl (fps c))"
    by (auto simp: fmul_def rounded_def Let_def split: if_splits)
next
  assume h: "v_audio (clip c) = None \<and> fmul (duration c) (fps c) = Finite x \<and> 0 \<le> x"
  then have "0 \<le> py_int x" by (simp add: py_int_def)
  then show "extract_audio_features c = Inr (replicate (nat (py_int x)) [0])"
    using h by (simp add: extract_audio_features_def int_of_float_def np_zeros_def)
next
  fix a rows assume "v_audio (clip c) = Some a \<and> extract_audio_features c = Inr rows"
  then show "list_all (\<lambda>r. length r = 3) rows"
    by (auto simp: extract_audio_features_def Let_def list_all_iff split: sum.splits)
qed

lemma cx_product: "fmul (duration cx) (fps cx) = Finite 7"
  by (simp add: cx_fields float_eval)

lemma cy_product: "fmul (duration cy) (fps cy) = Finite (29 - 1 / 2 ^ 48)"
  using fmul_29_double by (simp add: cy_fields)

theorem C9_no_audio_fallback_witness:
  "(v_audio (clip cx) = None \<and> fmul (duration cx) (fps cx) = Finite 7
      \<and> extract_audio_features cx = Inr (replicate 7 [0]))
   \<and> (v_audio (clip cy) = None \<and> fmul (duration cy) (fps cy) = Finite (29 - 1 / 2 ^ 48)
      \<and> extract_audio_features cy = Inr (replicate 28 [0]))
   \<and> (\<exists>a rows. v_audio (clip ex_catcher) = Some a \<and> extract_audio_features ex_catcher = Inr rows
         \<and> rows \<noteq> [] \<and> list_all (\<lambda>r. length r = 3) rows)"
proof -
  have hx: "v_audio (clip cx) = None \<and> fmul (duration cx) (fps cx) = Finite 7 \<and> (0 :: real) \<le> 7"
    by (simp add: cx_more cx_product)
  have nx: "nat (py_int 7) = 7" by (simp add: py_int_def)
  have ax: "extract_audio_features cx = Inr (replicate 7 [0])"
    using hx C9_no_audio_fallback [of cx 7] unfolding nx by blast
  have "v_audio (clip cy) = None" by (simp add: cy_fields)
  then have hy: "v_audio (clip cy) = None \<and> fmul (duration cy) (fps cy) = Finite (29 - 1 / 2 ^ 48)
      \<and> (0 :: real) \<le> 29 - 1 / 2 ^ 48"
    by (simp add: cy_product)
  have ny: "nat (py_int (29 - 1 / 2 ^ 48)) = 28" by (simp add: py_int_def)
  have ay: "extract_audio_features cy = Inr (replicate 28 [0])"
    using hy C9_no_audio_fallback [of cy "29 - 1 / 2 ^ 48"] unfolding ny by blast
  from ex_audio obtain rows where r: "extract_audio_features ex_catcher = Inr rows" "rows \<noteq> []"
    by blast
  have s: "v_audio (clip ex_catcher) = Some (Mono [0, 1, 0, -1, 0, 1, 0, -1, 0, 1])"
    by (simp add: ex_fields)
  then have "list_all (\<lambda>r. length r = 3) rows"
    using r(1) C9_no_audio_fallback [of ex_catcher] by blast
  then show ?thesis using hx ax hy ay r s by blast
qed

subsection \<open>C6: the audio windows\<close>

text \<open>
  C6. The claim is that the windows are about 100 ms long, that is 0.1 times the audio
  sample rate in samples, with a hop of half a window. The code takes the window length
  from \<^verbatim>\<open>self.fps\<close>, the frame rate of the video: at 30 frames per second a window
  has 3 samples, whatever the sample rate of the audio (at 44100 Hz, 100 ms are 4410
  samples), the hop is 1 sample, which is not half of 3, and the first window is the
  first three samples. Below 20 frames per second the hop is 0 and \<^verbatim>\<open>range\<close> raises.
  The products are the rounded ones: \<^verbatim>\<open>30 * 0.1\<close> is \<open>3\<close> and \<^verbatim>\<open>15 * 0.1\<close> is \<open>1.5\<close>
  as floats too.
\<close>

theorem C6_window_from_video_frame_rate:
  "fps ex_catcher = 30
   \<and> frame_length ex_catcher = 3
   \<and> hop_length ex_catcher = 1
   \<and> frame_length ex_catcher \<noteq> py_int (44100 * (1 / 10))
   \<and> 2 * hop_length ex_catcher \<noteq> frame_length ex_catcher
   \<and> window_starts ex_catcher [0, 1, 0, -1, 0, 1, 0, -1, 0, 1] = Inr [0, 1, 2, 3, 4, 5, 6]
   \<and> window_at ex_catcher [0, 1, 0, -1, 0, 1, 0, -1, 0, 1] 0 = [0, 1, 0]
   \<and> window_starts (ex_catcher\<lparr>fps := 15\<rparr>) [0, 1, 0, -1, 0, 1, 0, -1, 0, 1] = Inl ValueError"
proof -
  have a: "fps ex_catcher = 30" by (simp add: ex_fields)
  have b: "frame_length ex_catcher \<noteq> py_int (44100 * (1 / 10))"
    by (simp add: ex_frame_length py_int_def)
  have c: "2 * hop_length ex_catcher \<noteq> frame_length ex_catcher"
    by (simp add: ex_frame_length ex_hop_length)
  have d: "window_at ex_catcher [0, 1, 0, -1, 0, 1, 0, -1, 0, 1] 0 = [0, 1, 0]"
    by (simp add: window_at_def ex_frame_length py_slice_def py_bound_def)
  have "frame_length (ex_catcher\<lparr>fps := 15\<rparr>) = 1"
    by (simp add: frame_length_def py_int_def float_eval)
  then have "hop_length (ex_catcher\<lparr>fps := 15\<rparr>) = 0"
    by (simp add: hop_length_def py_int_def float_eval)
  then have e: "window_starts (ex_catcher\<lparr>fps := 15\<rparr>) [0, 1, 0, -1, 0, 1, 0, -1, 0, 1] = Inl ValueError"
    by (simp add: window_starts_def py_range_def)
  show ?thesis using a b c d e ex_frame_length ex_hop_length ex_window_starts by blast
qed

subsection \<open>C10: generate_trailer on an instance without moments\<close>

text \<open>
  C10. The claim is that a caller who never ran the detection still gets moments
  detected by \<^verbatim>\<open>generate_trailer\<close>, with the default parameters. The call
  \<^verbatim>\<open>self.detect_moments()\<close> at line 176 is there, but it never yields a moment. For the
  instance that the constructor builds for the example video, which holds no moments,
  the detection raises \<^verbatim>\<open>ValueError\<close> in the scoring step and \<^verbatim>\<open>generate_trailer\<close>
  raises with it, leaving the world as it was. By \<open>reachable_generate\<close> the call raises
  or returns \<^verbatim>\<open>False\<close> on every instance, and by \<open>reachable_moments\<close> the instance never
  holds a moment.
\<close>

theorem C10_detection_in_generate_trailer_raises:
  "MomentCatcher ''uploads/a.mp4'' (w0\<lparr>files := (files w0)(''uploads/a.mp4'' \<mapsto> Some ex_video)\<rparr>)
     = Inr (ex_catcher, w0\<lparr>files := (files w0)(''uploads/a.mp4'' \<mapsto> Some ex_video),
                            open_clips := ''uploads/a.mp4'' # open_clips w0\<rparr>)
   \<and> moments ex_catcher = []
   \<and> detect_moments 10 3 ex_catcher = Inl ValueError
   \<and> generate_trailer ''outputs/t.mp4'' 30 ex_catcher
        (w0\<lparr>files := (files w0)(''uploads/a.mp4'' \<mapsto> Some ex_video),
            open_clips := ''uploads/a.mp4'' # open_clips w0\<rparr>)
      = Inl (ValueError, w0\<lparr>files := (files w0)(''uploads/a.mp4'' \<mapsto> Some ex_video),
                            open_clips := ''uploads/a.mp4'' # open_clips w0\<rparr>)"
  using catcher_of_upload [of w0] by (simp add: generate_trailer_def ex_fields ex_detect)

subsection \<open>C5: an empty list of admitted moments\<close>

text \<open>
  C5. The loop admits no moment exactly when there is no moment or the budget is not
  positive. In that case \<^verbatim>\<open>generate_trailer\<close> returns \<^verbatim>\<open>False\<close> and leaves the world
  as it was, so no output file is written; it returns normally, it does not raise.
  This holds both when the instance already holds moments and when the moments come from
  the detection that \<^verbatim>\<open>generate_trailer\<close> runs itself.
\<close>

theorem C5_empty_admission_reports_failure:
  "(fst (admit max_duration ms) = [] \<longleftrightarrow> ms = [] \<or> max_duration \<le> 0)
   \<and> (moments c \<noteq> [] \<and> fst (admit max_duration (moments c)) = [] \<longrightarrow>
        generate_trailer output_path max_duration c w = Inr (False, c, w))
   \<and> (moments c = [] \<and> detect_moments 10 3 c = Inr (ms', c') \<and> fst (admit max_duration (moments c')) = [] \<longrightarrow>
        generate_trailer output_path max_duration c w = Inr (False, c', w))"
  by (auto simp: admit_empty_iff generate_trailer_def assemble_def render_def)

theorem C5_empty_admission_reports_failure_witness:
  "(moments (cx\<lparr>moments := [(Finite 0, Finite 10, Finite 1)]\<rparr>) \<noteq> []
      \<and> fst (admit 0 (moments (cx\<lparr>moments := [(Finite 0, Finite 10, Finite 1)]\<rparr>))) = []
      \<and> generate_trailer ''outputs/t.mp4'' 0 (cx\<lparr>moments := [(Finite 0, Finite 10, Finite 1)]\<rparr>) w0
           = Inr (False, cx\<lparr>moments := [(Finite 0, Finite 10, Finite 1)]\<rparr>, w0))
   \<and> (moments cx = [] \<and> detect_moments 10 3 cx = Inr ([], cx) \<and> fst (admit 30 (moments cx)) = []
      \<and> generate_trailer ''outputs/t.mp4'' 30 cx w0 = Inr (False, cx, w0))"
proof -
  let ?c = "cx\<lparr>moments := [(Finite 0, Finite 10, Finite 1)]\<rparr>"
  have a: "moments ?c \<noteq> [] \<and> fst (admit 0 (moments ?c)) = []"
    by (simp add: admit_def fge_def fle_def)
  have b: "moments cx = [] \<and> detect_moments 10 3 cx = Inr ([], cx) \<and> fst (admit 30 (moments cx)) = []"
    by (simp add: cx_fields cx_detect admit_def)
  from a C5_empty_admission_reports_failure [of 0 "[]" ?c "''outputs/t.mp4''" w0 "[]" cx]
  have "generate_trailer ''outputs/t.mp4'' 0 ?c w0 = Inr (False, ?c, w0)" by blast
  moreover from b C5_empty_admission_reports_failure [of 30 "[]" cx "''outputs/t.mp4''" w0 "[]" cx]
  have "generate_trailer ''outputs/t.mp4'' 30 cx w0 = Inr (False, cx, w0)" by blast
  ultimately show ?thesis using a b by blast
qed

subsection \<open>C2: releasing the video source\<close>

text \<open>
  C2. The claim is that the handler closes the \<^verbatim>\<open>VideoFileClip\<close> on every exit path.
  \<^verbatim>\<open>catcher.close()\<close> stands inside the \<^verbatim>\<open>try\<close> block after \<^verbatim>\<open>generate_trailer\<close>, not
  in the \<^verbatim>\<open>finally\<close> clause. For an upload of the example video the detection raises
  \<^verbatim>\<open>ValueError\<close>; the handler answers \<^verbatim>\<open>Processing failed\<close>, removes the uploaded file,
  and returns with the handle on \<^verbatim>\<open>uploads/a.mp4\<close> still open.
\<close>

theorem C2_clip_left_open_on_failure:
  "upload_video (\<lambda>name. name) req0 w0
     = (Processing_failed ValueError,
        \<lparr>files = Map.empty, open_clips = [''uploads/a.mp4''], outputs = [], encoder_ok = True\<rparr>)"
proof -
  let ?w1 = "w0\<lparr>files := (files w0)(''uploads/a.mp4'' \<mapsto> Some ex_video)\<rparr>"
  have "process ''a.mp4'' ''uploads/a.mp4'' ?w1
      = (Processing_failed ValueError,
         w0\<lparr>files := (files w0)(''uploads/a.mp4'' \<mapsto> Some ex_video), open_clips := ''uploads/a.mp4'' # open_clips w0\<rparr>)"
    by (simp add: process_def catcher_of_upload ex_detect)
  then show ?thesis
    by (simp add: upload_video_def req0_def Let_def w0_def)
qed

subsection \<open>C3: order and bounds of the moments\<close>



subsection \<open>C7: spacing and height of the selected peaks\<close>



subsection \<open>C8: the number of moments\<close>



end
